theory Spec2Isabelle
  imports
    Complex_Main
    "HOL-Library.Char_ord"
    "HOL-Library.List_Lexorder"
    "HOL-Library.Multiset"
    "HOL-Library.Sublist"
begin

section \<open>The localization update script\<close>

text \<open>
  The script \<^verbatim>\<open>update-localization-extension.js\<close> exports one function,
  \<^verbatim>\<open>update(idOrPath)\<close>. It reads the file system and a parsed manifest; both are
  outside the repository, so they are the two components of an environment record.
  A thrown JavaScript exception is the second component of the result; the first
  component is the list of effects performed before it.
\<close>

datatype json =
    JUndefined
  | JNull
  | JBool bool
  | JNumber int
  | JString string
  | JArray "json list"
  | JObject "(string \<times> json) list"

text \<open>
  The exceptions of JavaScript and of Node's file system that the code can throw.
\<close>

datatype js_exception =
    Error string
  | TypeError
  | SyntaxError
  | ENOENT
  | ENOTDIR
  | EISDIR

text \<open>JavaScript truthiness, as tested by \<^verbatim>\<open>!x\<close> and \<^verbatim>\<open>x || y\<close>.\<close>

fun truthy :: "json \<Rightarrow> bool" where
  "truthy JUndefined = False"
| "truthy JNull = False"
| "truthy (JBool b) = b"
| "truthy (JNumber n) = (n \<noteq> 0)"
| "truthy (JString s) = (s \<noteq> [])"
| "truthy (JArray xs) = True"
| "truthy (JObject kvs) = True"

text \<open>
  Property access \<^verbatim>\<open>v[k]\<close> for the keys the script uses (none of them is a
  property of a prototype): it throws on \<^verbatim>\<open>null\<close> and \<^verbatim>\<open>undefined\<close>, looks the key up in an
  object and is \<^verbatim>\<open>undefined\<close> on every other value.
\<close>

fun get_prop :: "json \<Rightarrow> string \<Rightarrow> js_exception + json" where
  "get_prop JUndefined k = Inl TypeError"
| "get_prop JNull k = Inl TypeError"
| "get_prop (JObject kvs) k = Inr (case map_of kvs k of None \<Rightarrow> JUndefined | Some v \<Rightarrow> v)"
| "get_prop v k = Inr JUndefined"

datatype node = File string | Dir "(string \<times> node) list"

record environment =
  lookupPath :: "string \<Rightarrow> node option"
  parseJSON :: "string \<Rightarrow> json option"
  TRANSIFEX_API_TOKEN :: json

text \<open>
  What the script does to the outside: the two messages it logs, \<^verbatim>\<open>rimraf.sync\<close>, and the
  files pulled by \<^verbatim>\<open>i18n.pullI18nPackFiles(server, userName, apiToken, { id: languageId })\<close>
  and piped to a folder.
\<close>

datatype effect =
    LogClearing string
  | Rimraf string
  | LogDownloading json string
  | Pull json json json json string

text \<open>\<^verbatim>\<open>\w\<close> of a JavaScript regular expression: a letter, a digit or an underscore.\<close>

definition word_char :: "char \<Rightarrow> bool" where
  "word_char c \<longleftrightarrow>
     (CHR ''a'' \<le> c \<and> c \<le> CHR ''z'') \<or> (CHR ''A'' \<le> c \<and> c \<le> CHR ''Z'')
     \<or> (CHR ''0'' \<le> c \<and> c \<le> CHR ''9'') \<or> c = CHR ''_''"

text \<open>The test \<^verbatim>\<open>/^\w{2}(-\w+)?$/.test(idOrPath)\<close>.\<close>

fun is_language_id :: "string \<Rightarrow> bool" where
  "is_language_id (a # b # rest) =
     (word_char a \<and> word_char b \<and>
      (case rest of
         [] \<Rightarrow> True
       | d # ws \<Rightarrow> d = CHR ''-'' \<and> ws \<noteq> [] \<and> list_all word_char ws))"
| "is_language_id _ = False"

text \<open>\<^verbatim>\<open>fs.statSync(p)\<close>: throws when nothing is at \<^verbatim>\<open>p\<close>.\<close>

definition statSync :: "environment \<Rightarrow> string \<Rightarrow> js_exception + node" where
  "statSync env p = (case lookupPath env p of None \<Rightarrow> Inl ENOENT | Some n \<Rightarrow> Inr n)"

text \<open>
  \<^verbatim>\<open>fs.readFileSync(path.join(dir, child))\<close> for a file name \<^verbatim>\<open>child\<close>: the entry of that
  name in the directory found at \<^verbatim>\<open>dir\<close>.
\<close>

definition readFileSync_in :: "environment \<Rightarrow> string \<Rightarrow> string \<Rightarrow> js_exception + string" where
  "readFileSync_in env dir child =
     (case lookupPath env dir of
        None \<Rightarrow> Inl ENOENT
      | Some (File c) \<Rightarrow> Inl ENOTDIR
      | Some (Dir entries) \<Rightarrow>
          (case map_of entries child of
             None \<Rightarrow> Inl ENOENT
           | Some (Dir es) \<Rightarrow> Inl EISDIR
           | Some (File c) \<Rightarrow> Inr c))"

definition path_join :: "string \<Rightarrow> string \<Rightarrow> string" where
  "path_join a b = a @ ''/'' @ b"

definition existsSync :: "environment \<Rightarrow> string \<Rightarrow> bool" where
  "existsSync env p = (lookupPath env p \<noteq> None)"

definition existsSync_in :: "environment \<Rightarrow> string \<Rightarrow> string \<Rightarrow> bool" where
  "existsSync_in env dir child =
     (case lookupPath env dir of
        Some (Dir entries) \<Rightarrow> map_of entries child \<noteq> None
      | _ \<Rightarrow> False)"

text \<open>\<^verbatim>\<open>a || b\<close> on values.\<close>

definition js_or :: "json \<Rightarrow> json \<Rightarrow> json" where
  "js_or a b = (if truthy a then a else b)"

text \<open>
  The body of the \<^verbatim>\<open>forEach\<close> callback (lines 38 to 56) for one entry. Reading a
  property of an entry that is \<^verbatim>\<open>null\<close> throws a \<^verbatim>\<open>TypeError\<close>, and so does
  \<^verbatim>\<open>path.join\<close> on a value that is not a string.
\<close>

definition each_localization ::
    "environment \<Rightarrow> string \<Rightarrow> json \<Rightarrow> effect list \<times> js_exception option" where
  \<open>each_localization env locExtFolder localization =
     (case get_prop localization ''languageId'' of
        Inl e \<Rightarrow> ([], Some e)
      | Inr languageId0 \<Rightarrow>
     (case get_prop localization ''languageName'' of
        Inl e \<Rightarrow> ([], Some e)
      | Inr languageName \<Rightarrow>
     (case get_prop localization ''translations'' of
        Inl e \<Rightarrow> ([], Some e)
      | Inr translations \<Rightarrow>
      if \<not> truthy languageId0 \<or> \<not> truthy languageName \<or> \<not> truthy translations
      then ([], Some (Error ''Each localization contribution must define "languageId", "languageName" and "translations" properties.''))
      else
     (case get_prop localization ''server'' of
        Inl e \<Rightarrow> ([], Some e)
      | Inr server0 \<Rightarrow>
     (case get_prop localization ''userName'' of
        Inl e \<Rightarrow> ([], Some e)
      | Inr userName0 \<Rightarrow>
     (case get_prop localization ''transifexId'' of
        Inl e \<Rightarrow> ([], Some e)
      | Inr transifexId \<Rightarrow>
      let server = js_or server0 (JString ''www.transifex.com'');
          userName = js_or userName0 (JString ''api'');
          apiToken = TRANSIFEX_API_TOKEN env;
          languageId = js_or transifexId languageId0
      in
       (case translations of
          JString t \<Rightarrow>
            let translationDataFolder = path_join locExtFolder t;
                clearing =
                  (if existsSync env translationDataFolder
                      \<and> existsSync_in env translationDataFolder ''main.i18n.json''
                   then [LogClearing translationDataFolder, Rimraf translationDataFolder]
                   else [])
            in (clearing @ [LogDownloading languageId translationDataFolder,
                            Pull server userName apiToken languageId translationDataFolder],
                None)
        | _ \<Rightarrow> ([], Some TypeError))))))))\<close>

text \<open>\<^verbatim>\<open>localizations.forEach(...)\<close>: the first exception ends the loop.\<close>

fun forEach_localization ::
    "environment \<Rightarrow> string \<Rightarrow> json list \<Rightarrow> effect list \<times> js_exception option" where
  "forEach_localization env locExtFolder [] = ([], None)"
| "forEach_localization env locExtFolder (l # ls) =
     (case each_localization env locExtFolder l of
        (effs, Some e) \<Rightarrow> (effs, Some e)
      | (effs, None) \<Rightarrow>
          (case forEach_localization env locExtFolder ls of
             (effs', r) \<Rightarrow> (effs @ effs', r)))"

text \<open>Lines 29 to 56 of \<^verbatim>\<open>update\<close>: what is done with the parsed manifest.\<close>

definition update_manifest ::
    "environment \<Rightarrow> string \<Rightarrow> json \<Rightarrow> effect list \<times> js_exception option" where
  \<open>update_manifest env locExtFolder packageJSON =
     (case get_prop packageJSON ''contributes'' of
        Inl e \<Rightarrow> ([], Some e)
      | Inr contributes \<Rightarrow>
        if \<not> truthy contributes
        then ([], Some (Error ''The extension must define a "localizations" contribution in the "package.json"''))
        else
        (case get_prop contributes ''localizations'' of
           Inl e \<Rightarrow> ([], Some e)
         | Inr localizations \<Rightarrow>
           if \<not> truthy localizations
           then ([], Some (Error ''The extension must define a "localizations" contribution of type array in the "package.json"''))
           else
           (case localizations of
              JArray ls \<Rightarrow> forEach_localization env locExtFolder ls
            | _ \<Rightarrow> ([], Some TypeError))))\<close>

text \<open>
  The test of line 25, \<^verbatim>\<open>!locExtStat || !locExtStat.isDirectory\<close>. What \<^verbatim>\<open>statSync\<close>
  returns is an object, which is truthy, and \<^verbatim>\<open>locExtStat.isDirectory\<close> is its method, not
  the result of calling it, and a function is truthy: the test is false for every kind of
  node.
\<close>

definition no_directory_test :: "node \<Rightarrow> bool" where
  "no_directory_test locExtStat = False"

text \<open>
  \<^verbatim>\<open>update(idOrPath)\<close>, lines 15 to 59. The argument is \<^verbatim>\<open>None\<close> when it is missing.
\<close>

definition update :: "environment \<Rightarrow> string option \<Rightarrow> effect list \<times> js_exception option" where
  "update env idOrPath0 =
     (case idOrPath0 of
        None \<Rightarrow> ([], Some (Error ''Argument must be the location of the localization extension.''))
      | Some idOrPath \<Rightarrow>
      if idOrPath = [] then ([], Some (Error ''Argument must be the location of the localization extension.''))
      else
        let locExtFolder =
              (if is_language_id idOrPath then ''../vscode-localization-'' @ idOrPath else idOrPath)
        in
        (case statSync env locExtFolder of
           Inl e \<Rightarrow> ([], Some e)
         | Inr locExtStat \<Rightarrow>
        if no_directory_test locExtStat
        then ([], Some (Error (''No directory found at '' @ idOrPath)))
        else
        (case readFileSync_in env locExtFolder ''package.json'' of
           Inl e \<Rightarrow> ([], Some e)
         | Inr text \<Rightarrow>
        (case parseJSON env text of
           None \<Rightarrow> ([], Some SyntaxError)
         | Some packageJSON \<Rightarrow> update_manifest env locExtFolder packageJSON))))"

text \<open>
  Lines 60 to 62: the script calls \<^verbatim>\<open>update\<close> with its first argument when it runs under
  its own name. \<^verbatim>\<open>process.argv\<close> begins with the path of \<^verbatim>\<open>node\<close> and the path of
  the script; \<^verbatim>\<open>path.basename\<close> is the part of a path after its last slash.
\<close>

definition basename :: "string \<Rightarrow> string" where
  "basename p = rev (takeWhile (\<lambda>c. c \<noteq> CHR ''/'') (dropWhile (\<lambda>c. c = CHR ''/'') (rev p)))"

definition run_script :: "environment \<Rightarrow> string \<Rightarrow> string \<Rightarrow> string list \<Rightarrow> effect list \<times> js_exception option" where
  "run_script env node script arguments =
     (if basename script = ''update-localization-extension.js''
      then update env (case arguments of [] \<Rightarrow> None | a # rest \<Rightarrow> Some a)
      else ([], None))"

text \<open>The folder the script works on, lines 20 to 23.\<close>

definition resolved_target :: "string \<Rightarrow> string" where
  "resolved_target idOrPath =
     (if is_language_id idOrPath then ''../vscode-localization-'' @ idOrPath else idOrPath)"

text \<open>What the claim calls a missing field of a localization entry.\<close>

definition lacks :: "json \<Rightarrow> string \<Rightarrow> bool" where
  "lacks v k = (case v of JObject kvs \<Rightarrow> map_of kvs k = None | _ \<Rightarrow> True)"

definition is_directory :: "node option \<Rightarrow> bool" where
  "is_directory n = (case n of Some (Dir es) \<Rightarrow> True | _ \<Rightarrow> False)"

definition raises :: "effect list \<times> js_exception option \<Rightarrow> bool" where
  "raises r = (snd r \<noteq> None)"

text \<open>
  The manifest the script reads: \<^verbatim>\<open>JSON.parse\<close> of \<^verbatim>\<open>package.json\<close> in the target
  folder, when the file can be read and parsed.
\<close>

definition manifest :: "environment \<Rightarrow> string \<Rightarrow> json option" where
  "manifest env idOrPath =
     (case readFileSync_in env (resolved_target idOrPath) ''package.json'' of
        Inl e \<Rightarrow> None
      | Inr text \<Rightarrow> parseJSON env text)"

definition contributes_of :: "json \<Rightarrow> json" where
  "contributes_of pkg = (case get_prop pkg ''contributes'' of Inl e \<Rightarrow> JUndefined | Inr c \<Rightarrow> c)"

definition localizations_of :: "json \<Rightarrow> json" where
  "localizations_of pkg =
     (case get_prop (contributes_of pkg) ''localizations'' of Inl e \<Rightarrow> JUndefined | Inr l \<Rightarrow> l)"

definition is_list :: "json \<Rightarrow> bool" where
  "is_list v = (case v of JArray ls \<Rightarrow> True | _ \<Rightarrow> False)"

definition example_manifest :: json where
  "example_manifest =
     JObject [(''contributes'', JObject [(''localizations'',
        JArray [JObject [(''languageId'', JString ''de''), (''languageName'', JString ''German'')]])])]"

definition example_env :: environment where
  "example_env =
     \<lparr> lookupPath = (\<lambda>p. if p = ''../vscode-localization-de''
                          then Some (Dir [(''package.json'', File ''{}'')]) else None),
       parseJSON = (\<lambda>s. Some example_manifest),
       TRANSIFEX_API_TOKEN = JUndefined \<rparr>"

section \<open>The workspace folders of the extension host\<close>

subsection \<open>Locations\<close>

text \<open>
  Modelled from the spec: the class \<^verbatim>\<open>URI\<close> (\<^verbatim>\<open>vs/base/common/uri\<close>) is not among the
  sources. A location is "URI-like: scheme + authority + path", and its string form puts the
  three together.
\<close>

record URI =
  scheme :: string
  authority :: string
  path :: string

definition uri_toString :: "URI \<Rightarrow> string" where
  "uri_toString u = scheme u @ ''://'' @ authority u @ path u"

text \<open>
  Modelled from the spec: \<^verbatim>\<open>URI.file\<close> and \<^verbatim>\<open>fsPath\<close> of the same absent class, on a
  system with forward slashes: a file location has the path it was made from.
\<close>

definition uri_file :: "string \<Rightarrow> URI" where
  "uri_file p = \<lparr> scheme = ''file'', authority = [], path = p \<rparr>"

definition fsPath :: "URI \<Rightarrow> string" where
  "fsPath u = path u"

text \<open>
  Modelled from the spec: \<^verbatim>\<open>isEqual\<close> (\<^verbatim>\<open>vs/base/common/resources\<close>) and the
  \<^verbatim>\<open>equalsIgnoreCase\<close> it calls are not among the sources. Locations are equal by
  "case-insensitive comparison on case-insensitive filesystems, case-sensitive otherwise",
  and the code compares the string forms.
\<close>

definition lower_char :: "char \<Rightarrow> char" where
  "lower_char c =
     (if CHR ''A'' \<le> c \<and> c \<le> CHR ''Z'' then char_of (of_char c + (32 :: nat)) else c)"

definition equalsIgnoreCase :: "string \<Rightarrow> string \<Rightarrow> bool" where
  "equalsIgnoreCase a b \<longleftrightarrow> map lower_char a = map lower_char b"

definition isEqual :: "URI \<Rightarrow> URI \<Rightarrow> bool \<Rightarrow> bool" where
  "isEqual first second ignoreCase =
     (if ignoreCase then equalsIgnoreCase (uri_toString first) (uri_toString second)
      else uri_toString first = uri_toString second)"

text \<open>
  \<^verbatim>\<open>isLinux\<close> is a constant of the absent module \<^verbatim>\<open>vs/base/common/platform\<close>; every
  function that depends on it takes it as its first argument.
\<close>

definition isFolderEqual :: "bool \<Rightarrow> URI \<Rightarrow> URI \<Rightarrow> bool" where
  "isFolderEqual isLinux folderA folderB = isEqual folderA folderB (\<not> isLinux)"

text \<open>
  Modelled from the spec: \<^verbatim>\<open>compare\<close> (\<^verbatim>\<open>vs/base/common/strings\<close>) is not among the
  sources. It is the comparator of strings: negative, zero or positive as the first string
  is smaller than, equal to or greater than the second in JavaScript's order of strings, the
  lexicographic order of the character codes.
\<close>

definition compare :: "string \<Rightarrow> string \<Rightarrow> int" where
  "compare a b = (if a < b then - 1 else if a > b then 1 else 0)"

subsection \<open>Folders and the two comparators\<close>

record WorkspaceFolder =
  uri :: URI
  name :: string
  index :: int

definition compareWorkspaceFolderByUri :: "bool \<Rightarrow> WorkspaceFolder \<Rightarrow> WorkspaceFolder \<Rightarrow> int" where
  "compareWorkspaceFolderByUri isLinux a b =
     (if isFolderEqual isLinux (uri a) (uri b) then 0
      else compare (uri_toString (uri a)) (uri_toString (uri b)))"

definition compareWorkspaceFolderByUriAndNameAndIndex ::
    "bool \<Rightarrow> WorkspaceFolder \<Rightarrow> WorkspaceFolder \<Rightarrow> int" where
  "compareWorkspaceFolderByUriAndNameAndIndex isLinux a b =
     (if index a \<noteq> index b then (if index a < index b then - 1 else 1)
      else if isFolderEqual isLinux (uri a) (uri b) then compare (name a) (name b)
      else compare (uri_toString (uri a)) (uri_toString (uri b)))"

subsection \<open>Sorting and the delta of two lists\<close>

text \<open>
  \<^verbatim>\<open>Array.prototype.sort\<close> is part of the language. It is modelled as the stable insertion
  sort: each element, from left to right, goes before the first element it compares smaller
  than. For a comparator that orders the elements consistently this is what the language
  prescribes.
\<close>

fun js_insert :: "('a \<Rightarrow> 'a \<Rightarrow> int) \<Rightarrow> 'a \<Rightarrow> 'a list \<Rightarrow> 'a list" where
  "js_insert cmp x [] = [x]"
| "js_insert cmp x (y # ys) = (if cmp x y < 0 then x # y # ys else y # js_insert cmp x ys)"

definition js_sort :: "('a \<Rightarrow> 'a \<Rightarrow> int) \<Rightarrow> 'a list \<Rightarrow> 'a list" where
  "js_sort cmp xs = foldl (\<lambda>sorted x. js_insert cmp x sorted) [] xs"

text \<open>
  Modelled from the spec: \<^verbatim>\<open>delta\<close> of \<^verbatim>\<open>vs/base/common/arrays\<close> is not among the sources.
  It takes two sorted lists and walks both at once: elements the comparator calls equal are
  "excluded from both added and removed", a smaller element of the old list is removed, a
  smaller element of the new list is added. The result is the pair (removed, added).
\<close>

fun arrayDelta :: "'a list \<Rightarrow> 'a list \<Rightarrow> ('a \<Rightarrow> 'a \<Rightarrow> int) \<Rightarrow> 'a list \<times> 'a list" where
  "arrayDelta [] afterArr cmp = ([], afterArr)"
| "arrayDelta (b # beforeArr) [] cmp = (b # beforeArr, [])"
| "arrayDelta (b # beforeArr) (a # afterArr) cmp =
     (if cmp b a = 0 then arrayDelta beforeArr afterArr cmp
      else if cmp b a < 0 then
        (case arrayDelta beforeArr (a # afterArr) cmp of (removed, added) \<Rightarrow> (b # removed, added))
      else
        (case arrayDelta (b # beforeArr) afterArr cmp of (removed, added) \<Rightarrow> (removed, a # added)))"

text \<open>\<^verbatim>\<open>delta\<close>, lines 37 to 42.\<close>

definition delta :: "'a list \<Rightarrow> 'a list \<Rightarrow> ('a \<Rightarrow> 'a \<Rightarrow> int) \<Rightarrow> 'a list \<times> 'a list" where
  "delta oldFolders newFolders cmp =
     (let oldSortedFolders = js_sort cmp oldFolders;
          newSortedFolders = js_sort cmp newFolders
      in arrayDelta oldSortedFolders newSortedFolders cmp)"

subsection \<open>Folder objects\<close>

text \<open>
  Folder objects are mutable and shared: the code updates \<^verbatim>\<open>name\<close> and \<^verbatim>\<open>index\<close> of a
  folder in place, and extensions may hold on to a folder. A folder object is a reference
  into a store; a new object takes the next free reference.
\<close>

type_synonym ref = nat

record store =
  cells :: "ref \<Rightarrow> WorkspaceFolder"
  nxt :: ref

definition alloc :: "store \<Rightarrow> WorkspaceFolder \<Rightarrow> ref \<times> store" where
  "alloc h f = (nxt h, h\<lparr> cells := (cells h)(nxt h := f), nxt := Suc (nxt h) \<rparr>)"

fun alloc_all :: "store \<Rightarrow> WorkspaceFolder list \<Rightarrow> store \<times> ref list" where
  "alloc_all h [] = (h, [])"
| "alloc_all h (f # fs) =
     (case alloc h f of (r, h') \<Rightarrow>
        (case alloc_all h' fs of (h'', rs) \<Rightarrow> (h'', r # rs)))"

text \<open>A comparator on folders, applied to folder objects.\<close>

definition on_objects ::
    "store \<Rightarrow> (WorkspaceFolder \<Rightarrow> WorkspaceFolder \<Rightarrow> int) \<Rightarrow> ref \<Rightarrow> ref \<Rightarrow> int" where
  "on_objects h cmp a b = cmp (cells h a) (cells h b)"

subsection \<open>The search tree of a workspace\<close>

text \<open>
  Modelled from the spec: \<^verbatim>\<open>TernarySearchTree.forPaths\<close> (\<^verbatim>\<open>vs/base/common/map\<close>) is not
  among the sources. It is a map "keyed by normalized path segments" with
  "longest-matching-prefix lookup": a key is cut at slashes and backslashes into its
  segments; \<^verbatim>\<open>set\<close> gives a key its value, \<^verbatim>\<open>get\<close> is the value of exactly
  this key, \<^verbatim>\<open>findSubstr\<close> the value of the longest key whose segments are a prefix of the
  segments asked for.
\<close>

fun segments_from :: "string \<Rightarrow> string \<Rightarrow> string list" where
  "segments_from cur [] = (if cur = [] then [] else [cur])"
| "segments_from cur (c # cs) =
     (if c = CHR ''/'' \<or> c = CHR 0x5C
      then (if cur = [] then segments_from [] cs else cur # segments_from [] cs)
      else segments_from (cur @ [c]) cs)"

definition path_segments :: "string \<Rightarrow> string list" where
  "path_segments key = segments_from [] key"

type_synonym 'v TernarySearchTree = "(string list \<times> 'v) list"

fun tst_put :: "'v TernarySearchTree \<Rightarrow> string list \<Rightarrow> 'v \<Rightarrow> 'v TernarySearchTree" where
  "tst_put [] k v = [(k, v)]"
| "tst_put ((k', v') # t) k v = (if k' = k then (k, v) # t else (k', v') # tst_put t k v)"

definition tst_set :: "'v TernarySearchTree \<Rightarrow> string \<Rightarrow> 'v \<Rightarrow> 'v TernarySearchTree" where
  "tst_set t key v = tst_put t (path_segments key) v"

definition tst_get :: "'v TernarySearchTree \<Rightarrow> string \<Rightarrow> 'v option" where
  "tst_get t key = map_of t (path_segments key)"

fun longest_key :: "(string list \<times> 'v) list \<Rightarrow> (string list \<times> 'v) option" where
  "longest_key [] = None"
| "longest_key (e # es) =
     (case longest_key es of
        None \<Rightarrow> Some e
      | Some b \<Rightarrow> if length (fst e) < length (fst b) then Some b else Some e)"

definition tst_findSubstr :: "'v TernarySearchTree \<Rightarrow> string \<Rightarrow> 'v option" where
  "tst_findSubstr t key =
     map_option snd (longest_key (filter (\<lambda>e. prefix (fst e) (path_segments key)) t))"

subsection \<open>The class ExtHostWorkspaceImpl\<close>

text \<open>
  The fields of the base class \<^verbatim>\<open>Workspace\<close> that the code reads are \<^verbatim>\<open>id\<close>, \<^verbatim>\<open>name\<close> and
  the length of \<^verbatim>\<open>folders\<close>; the constructor builds \<^verbatim>\<open>folders\<close> from the list that
  becomes \<^verbatim>\<open>_workspaceFolders\<close>, so that its length is the length of that list.
\<close>

record ExtHostWorkspaceImpl =
  ws_id :: string
  ws_name :: string
  workspaceFolders :: "ref list"
  ws_structure :: "ref TernarySearchTree"

text \<open>The constructor, lines 104 to 112.\<close>

definition new_ExtHostWorkspaceImpl ::
    "store \<Rightarrow> string \<Rightarrow> string \<Rightarrow> ref list \<Rightarrow> ExtHostWorkspaceImpl" where
  "new_ExtHostWorkspaceImpl h id' name' folders =
     \<lparr> ws_id = id', ws_name = name', workspaceFolders = folders,
       ws_structure = foldl (\<lambda>t folder. tst_set t (uri_toString (uri (cells h folder))) folder) [] folders \<rparr>"

text \<open>\<^verbatim>\<open>_findFolder\<close>, lines 90 to 99: the first folder of the workspace at this location.\<close>

definition findFolder :: "bool \<Rightarrow> store \<Rightarrow> ExtHostWorkspaceImpl \<Rightarrow> URI \<Rightarrow> ref option" where
  "findFolder isLinux h workspace folderUriToFind =
     find (\<lambda>folder. isFolderEqual isLinux (uri (cells h folder)) folderUriToFind)
       (workspaceFolders workspace)"

text \<open>
  A folder descriptor of the incoming data is either a value received from the main side, or,
  when \<^verbatim>\<open>trySetWorkspaceData\<close> passes the edited list on, a folder object, whose fields are
  read when the loop comes to it.
\<close>

datatype folderData = Received WorkspaceFolder | Object ref

fun read_folderData :: "store \<Rightarrow> folderData \<Rightarrow> WorkspaceFolder" where
  "read_folderData h (Received f) = f"
| "read_folderData h (Object r) = cells h r"

text \<open>
  The data of a workspace. Its field \<^verbatim>\<open>configuration\<close> is passed along by
  \<^verbatim>\<open>updateWorkspaceFolders\<close> and read by none of the functions here; it is left out.
\<close>

record 'f IWorkspaceData =
  wd_id :: string
  wd_name :: string
  wd_folders :: "'f list"

text \<open>
  The callback of the loop of lines 64 to 76, for the descriptor at position \<^verbatim>\<open>i\<close> of the
  incoming list: the folder that goes into the new list, and the store afterwards. A folder
  that is not found is made with \<^verbatim>\<open>index\<close>, which in the callback is the position in the
  list.
\<close>

definition merge_folder ::
    "bool \<Rightarrow> ExtHostWorkspaceImpl \<Rightarrow> folderData \<Rightarrow> nat \<Rightarrow> store \<Rightarrow> ref \<times> store" where
  "merge_folder isLinux lookupWorkspace fd i h =
     (let folderData = read_folderData h fd;
          folderUri = uri folderData
      in case findFolder isLinux h lookupWorkspace folderUri of
           Some existingFolder \<Rightarrow>
             (existingFolder,
              h\<lparr> cells := (cells h)(existingFolder :=
                    (cells h existingFolder)\<lparr> name := name folderData, index := index folderData \<rparr>) \<rparr>)
         | None \<Rightarrow> alloc h \<lparr> uri = folderUri, name = name folderData, index = int i \<rparr>)"

fun forEach_folderData ::
    "bool \<Rightarrow> ExtHostWorkspaceImpl \<Rightarrow> folderData list \<Rightarrow> nat \<Rightarrow> store \<times> ref list \<Rightarrow> store \<times> ref list" where
  "forEach_folderData isLinux lookupWorkspace [] i (h, newWorkspaceFolders) = (h, newWorkspaceFolders)"
| "forEach_folderData isLinux lookupWorkspace (fd # fds) i (h, newWorkspaceFolders) =
     (case merge_folder isLinux lookupWorkspace fd i h of
        (folder, h') \<Rightarrow>
          forEach_folderData isLinux lookupWorkspace fds (Suc i) (h', newWorkspaceFolders @ [folder]))"

text \<open>
  \<^verbatim>\<open>toExtHostWorkspace\<close>, lines 51 to 88. The result is the store after the call, the
  workspace, and the lists \<^verbatim>\<open>added\<close> and \<^verbatim>\<open>removed\<close>.
\<close>

definition toExtHostWorkspace ::
    "bool \<Rightarrow> store \<Rightarrow> folderData IWorkspaceData option \<Rightarrow> ExtHostWorkspaceImpl option
     \<Rightarrow> ExtHostWorkspaceImpl option
     \<Rightarrow> store \<times> ExtHostWorkspaceImpl option \<times> ref list \<times> ref list" where
  "toExtHostWorkspace isLinux h data previousConfirmedWorkspace previousUnconfirmedWorkspace =
     (case data of
        None \<Rightarrow> (h, None, [], [])
      | Some d \<Rightarrow>
          (case (case previousConfirmedWorkspace of
                   Some oldWorkspace \<Rightarrow>
                     forEach_folderData isLinux
                       (case previousUnconfirmedWorkspace of Some u \<Rightarrow> u | None \<Rightarrow> oldWorkspace)
                       (wd_folders d) 0 (h, [])
                 | None \<Rightarrow> alloc_all h (map (read_folderData h) (wd_folders d)))
           of (h', newWorkspaceFolders) \<Rightarrow>
             let sorted =
                   js_sort (\<lambda>f1 f2. if index (cells h' f1) < index (cells h' f2) then - 1 else 1)
                     newWorkspaceFolders;
                 workspace = new_ExtHostWorkspaceImpl h' (wd_id d) (wd_name d) sorted
             in (case delta (case previousConfirmedWorkspace of
                               Some oldWorkspace \<Rightarrow> workspaceFolders oldWorkspace
                             | None \<Rightarrow> [])
                        (workspaceFolders workspace)
                        (on_objects h' (compareWorkspaceFolderByUri isLinux))
                 of (removed, added) \<Rightarrow> (h', Some workspace, added, removed))))"

text \<open>
  Modelled from the spec: \<^verbatim>\<open>dirname\<close> is Node's; on a system with forward slashes it drops
  the last segment of a path, and the slashes after it.
\<close>

definition dirname :: "string \<Rightarrow> string" where
  "dirname p =
     (if p = [] then ''.''
      else
        let hasRoot = (hd p = CHR ''/'');
            back = dropWhile (\<lambda>c. c = CHR ''/'') (rev (tl p));
            rest = dropWhile (\<lambda>c. c \<noteq> CHR ''/'') back
        in if rest = [] then (if hasRoot then ''/'' else ''.'')
           else if hasRoot \<and> tl rest = [] then ''//''
           else hd p # rev (tl rest))"

text \<open>\<^verbatim>\<open>getWorkspaceFolder\<close> of the class, lines 118 to 124.\<close>

definition getWorkspaceFolder_impl :: "ExtHostWorkspaceImpl \<Rightarrow> URI \<Rightarrow> bool \<Rightarrow> ref option" where
  "getWorkspaceFolder_impl ws u resolveParent =
     (let u' = (if resolveParent \<and> tst_get (ws_structure ws) (uri_toString u) \<noteq> None
                then u\<lparr> path := dirname (path u) \<rparr> else u)
      in tst_findSubstr (ws_structure ws) (uri_toString u'))"

subsection \<open>The class ExtHostWorkspace\<close>

text \<open>
  A number of the language: a finite number, taken as the rational it stands for (sums are
  exact, where doubles round above \<open>2 ^ 53\<close>, and the two zeros are one), \<^verbatim>\<open>NaN\<close>, or an
  infinity.
\<close>

datatype js_number = Finite rat | NaN | Infinity | MinusInfinity

text \<open>The call that \<^verbatim>\<open>updateWorkspaceFolders\<close> makes on the proxy, with the numbers as given.\<close>

datatype proxy_call = UpdateWorkspaceFolders string js_number js_number "(URI \<times> string) list"

record WorkspaceFoldersChangeEvent =
  added :: "ref list"
  removed :: "ref list"

text \<open>
  The state of an \<^verbatim>\<open>ExtHostWorkspace\<close>: the store of folder objects, the calls made on the
  proxy (\<^verbatim>\<open>None\<close> when there is no proxy), the two workspaces, and the events fired.
\<close>

record ExtHostWorkspace =
  heap :: store
  proxy :: "proxy_call list option"
  confirmedWorkspace :: "ExtHostWorkspaceImpl option"
  unconfirmedWorkspace :: "ExtHostWorkspaceImpl option"
  fired :: "WorkspaceFoldersChangeEvent list"

text \<open>\<^verbatim>\<open>_actualWorkspace\<close>, lines 150 to 152.\<close>

definition actualWorkspace :: "ExtHostWorkspace \<Rightarrow> ExtHostWorkspaceImpl option" where
  "actualWorkspace s =
     (case unconfirmedWorkspace s of Some u \<Rightarrow> Some u | None \<Rightarrow> confirmedWorkspace s)"

definition received :: "WorkspaceFolder IWorkspaceData \<Rightarrow> folderData IWorkspaceData" where
  "received d = \<lparr> wd_id = wd_id d, wd_name = wd_name d, wd_folders = map Received (wd_folders d) \<rparr>"

definition empty_store :: store where
  "empty_store =
     \<lparr> cells = (\<lambda>r. \<lparr> uri = \<lparr> scheme = [], authority = [], path = [] \<rparr>, name = [], index = 0 \<rparr>),
       nxt = 0 \<rparr>"

text \<open>The constructor, lines 139 to 142.\<close>

definition new_ExtHostWorkspace ::
    "bool \<Rightarrow> proxy_call list option \<Rightarrow> WorkspaceFolder IWorkspaceData option \<Rightarrow> ExtHostWorkspace" where
  "new_ExtHostWorkspace isLinux mainProxy data =
     (case toExtHostWorkspace isLinux empty_store (map_option received data) None None of
        (h, workspace, a, r) \<Rightarrow>
          \<lparr> heap = h, proxy = mainProxy, confirmedWorkspace = workspace,
            unconfirmedWorkspace = None, fired = [] \<rparr>)"

text \<open>\<^verbatim>\<open>getWorkspaceFolders\<close>, lines 154 to 159.\<close>

definition getWorkspaceFolders :: "ExtHostWorkspace \<Rightarrow> ref list option" where
  "getWorkspaceFolders s = map_option workspaceFolders (actualWorkspace s)"

text \<open>\<^verbatim>\<open>trySetWorkspaceData\<close>, lines 264 to 275.\<close>

definition trySetWorkspaceData ::
    "bool \<Rightarrow> ExtHostWorkspace \<Rightarrow> folderData IWorkspaceData \<Rightarrow> bool \<times> ExtHostWorkspace" where
  "trySetWorkspaceData isLinux s data =
     (case actualWorkspace s of
        Some actual \<Rightarrow>
          (case toExtHostWorkspace isLinux (heap s) (Some data) (Some actual) None of
             (h, workspace, a, r) \<Rightarrow> (True, s\<lparr> heap := h, unconfirmedWorkspace := workspace \<rparr>))
      | None \<Rightarrow> (False, s))"

text \<open>\<^verbatim>\<open>$acceptWorkspaceData\<close>, lines 277 to 291.\<close>

definition acceptWorkspaceData ::
    "bool \<Rightarrow> ExtHostWorkspace \<Rightarrow> WorkspaceFolder IWorkspaceData option \<Rightarrow> ExtHostWorkspace" where
  "acceptWorkspaceData isLinux s data =
     (case toExtHostWorkspace isLinux (heap s) (map_option received data)
             (confirmedWorkspace s) (unconfirmedWorkspace s) of
        (h, workspace, added', removed') \<Rightarrow>
          s\<lparr> heap := h, confirmedWorkspace := workspace, unconfirmedWorkspace := None,
             fired := fired s @ [\<lparr> added = added', removed = removed' \<rparr>] \<rparr>)"

text \<open>
  Modelled from the spec: \<^verbatim>\<open>basenameOrAuthority\<close> (\<^verbatim>\<open>vs/base/common/resources\<close>) is not
  among the sources; the name of a folder defaults "to the last path segment or host name"
  of its location.
\<close>

definition basenameOrAuthority :: "URI \<Rightarrow> string" where
  "basenameOrAuthority u =
     (case path_segments (path u) of [] \<Rightarrow> authority u | ss \<Rightarrow> last ss)"

text \<open>
  An argument that is declared a number and tested with \<^verbatim>\<open>typeof\<close>: a number, which
  \<^verbatim>\<open>NaN\<close> and the infinities are too, or a value of another type.
\<close>

datatype number_arg = Num js_number | OtherType

text \<open>
  The operations of lines 171 and 180 on numbers: \<^verbatim>\<open>i < 0\<close>, \<^verbatim>\<open>index + deleteCount\<close> and
  \<^verbatim>\<open>... > currentWorkspaceFolders.length\<close>. Every comparison with \<^verbatim>\<open>NaN\<close> is false, and a sum
  with \<^verbatim>\<open>NaN\<close>, or of the two infinities, is \<^verbatim>\<open>NaN\<close>.
\<close>

fun less_zero :: "js_number \<Rightarrow> bool" where
  "less_zero (Finite r) = (r < 0)"
| "less_zero MinusInfinity = True"
| "less_zero NaN = False"
| "less_zero Infinity = False"

fun js_plus :: "js_number \<Rightarrow> js_number \<Rightarrow> js_number" where
  "js_plus (Finite a) (Finite b) = Finite (a + b)"
| "js_plus NaN y = NaN"
| "js_plus x NaN = NaN"
| "js_plus Infinity MinusInfinity = NaN"
| "js_plus MinusInfinity Infinity = NaN"
| "js_plus Infinity y = Infinity"
| "js_plus x Infinity = Infinity"
| "js_plus MinusInfinity y = MinusInfinity"
| "js_plus x MinusInfinity = MinusInfinity"

fun greater_than :: "js_number \<Rightarrow> nat \<Rightarrow> bool" where
  "greater_than (Finite r) n = (r > of_nat n)"
| "greater_than Infinity n = True"
| "greater_than NaN n = False"
| "greater_than MinusInfinity n = False"

text \<open>
  \<^verbatim>\<open>Array.prototype.splice(start, deleteCount, ...items)\<close> on an array of length \<^verbatim>\<open>len\<close>:
  both numbers are cut to integers towards zero, \<^verbatim>\<open>NaN\<close> counting as 0; a negative start
  counts from the end; the start is at most \<^verbatim>\<open>len\<close>, and the delete count lies between 0 and
  what is left after the start.
\<close>

definition toward_zero :: "rat \<Rightarrow> int" where
  "toward_zero r = (if r < 0 then \<lceil>r\<rceil> else \<lfloor>r\<rfloor>)"

fun actualStart :: "js_number \<Rightarrow> nat \<Rightarrow> nat" where
  "actualStart (Finite r) len =
     (if toward_zero r < 0 then nat (max (int len + toward_zero r) 0) else min (nat (toward_zero r)) len)"
| "actualStart NaN len = 0"
| "actualStart Infinity len = len"
| "actualStart MinusInfinity len = 0"

fun actualDeleteCount :: "js_number \<Rightarrow> nat \<Rightarrow> nat \<Rightarrow> nat" where
  "actualDeleteCount (Finite r) len start = nat (min (max (toward_zero r) 0) (int (len - start)))"
| "actualDeleteCount NaN len start = 0"
| "actualDeleteCount Infinity len start = len - start"
| "actualDeleteCount MinusInfinity len start = 0"

record FolderToAdd =
  add_uri :: "URI option"
  add_name :: "string option"

text \<open>Lines 162 to 169: the folders with a location, the first of each location.\<close>

definition js_or_name :: "string option \<Rightarrow> string \<Rightarrow> string" where
  "js_or_name n d = (case n of None \<Rightarrow> d | Some s \<Rightarrow> if s = [] then d else s)"

fun validate_folders :: "bool \<Rightarrow> FolderToAdd list \<Rightarrow> (URI \<times> string) list \<Rightarrow> (URI \<times> string) list" where
  "validate_folders isLinux [] validated = validated"
| "validate_folders isLinux (folderToAdd # rest) validated =
     validate_folders isLinux rest
       (case add_uri folderToAdd of
          None \<Rightarrow> validated
        | Some u \<Rightarrow>
            if list_ex (\<lambda>f. isFolderEqual isLinux (fst f) u) validated then validated
            else validated @ [(u, js_or_name (add_name folderToAdd) (basenameOrAuthority u))])"

text \<open>Line 186: every folder of the list gets its position as index, in place.\<close>

fun fix_index :: "store \<Rightarrow> ref list \<Rightarrow> nat \<Rightarrow> store" where
  "fix_index h [] i = h"
| "fix_index h (f # fs) i =
     fix_index (h\<lparr> cells := (cells h)(f := (cells h f)\<lparr> index := int i \<rparr>) \<rparr>) fs (Suc i)"

text \<open>
  Lines 184 to 186: the edited list, for the start and the delete count that \<^verbatim>\<open>splice\<close>
  works with. The objects made in line 185 have no index before line 186 gives them one.
\<close>

definition edit_folders ::
    "store \<Rightarrow> ref list \<Rightarrow> nat \<Rightarrow> nat \<Rightarrow> (URI \<times> string) list \<Rightarrow> store \<times> ref list" where
  "edit_folders h currentWorkspaceFolders i deleteCount validated =
     (case alloc_all h
             (map (\<lambda>f. \<lparr> uri = fst f, name = js_or_name (Some (snd f)) (basenameOrAuthority (fst f)),
                         index = 0 \<rparr>)
                validated)
      of (h1, inserted) \<Rightarrow>
        let newWorkspaceFolders =
              take i currentWorkspaceFolders @ inserted @ drop (i + deleteCount) currentWorkspaceFolders
        in (fix_index h1 newWorkspaceFolders 0, newWorkspaceFolders))"

text \<open>\<^verbatim>\<open>currentWorkspaceFolders\<close>, line 179.\<close>

definition currentWorkspaceFolders :: "ExtHostWorkspace \<Rightarrow> ref list" where
  "currentWorkspaceFolders s =
     (case actualWorkspace s of Some actual \<Rightarrow> workspaceFolders actual | None \<Rightarrow> [])"

text \<open>
  \<^verbatim>\<open>updateWorkspaceFolders\<close>, lines 161 to 206. Line 199 reads
  \<^verbatim>\<open>this._actualWorkspace.id\<close>, which throws when there is no workspace.
\<close>

definition updateWorkspaceFolders ::
    "bool \<Rightarrow> ExtHostWorkspace \<Rightarrow> string \<Rightarrow> number_arg \<Rightarrow> number_arg \<Rightarrow> FolderToAdd list
     \<Rightarrow> (js_exception + bool) \<times> ExtHostWorkspace" where
  "updateWorkspaceFolders isLinux s extensionName index' deleteCount' workspaceFoldersToAdd =
     (let validatedDistinctWorkspaceFoldersToAdd = validate_folders isLinux workspaceFoldersToAdd []
      in case (index', deleteCount') of
           (Num i, Num deleteCount) \<Rightarrow>
             if less_zero i \<or> less_zero deleteCount then (Inr False, s)
             else if deleteCount = Finite 0 \<and> validatedDistinctWorkspaceFoldersToAdd = []
             then (Inr False, s)
             else if greater_than (js_plus i deleteCount) (length (currentWorkspaceFolders s))
             then (Inr False, s)
             else
               (case edit_folders (heap s) (currentWorkspaceFolders s)
                       (actualStart i (length (currentWorkspaceFolders s)))
                       (actualDeleteCount deleteCount (length (currentWorkspaceFolders s))
                          (actualStart i (length (currentWorkspaceFolders s))))
                       validatedDistinctWorkspaceFoldersToAdd
                of (h, newWorkspaceFolders) \<Rightarrow>
                  (case delta (currentWorkspaceFolders s) newWorkspaceFolders
                          (on_objects h (compareWorkspaceFolderByUriAndNameAndIndex isLinux))
                   of (removed', added') \<Rightarrow>
                     if added' = [] \<and> removed' = [] then (Inr False, s\<lparr> heap := h \<rparr>)
                     else
                       let s' = s\<lparr> heap := h,
                                   proxy := map_option
                                     (\<lambda>calls. calls @ [UpdateWorkspaceFolders extensionName i deleteCount
                                                          validatedDistinctWorkspaceFoldersToAdd])
                                     (proxy s) \<rparr>
                       in
                       (case actualWorkspace s' of
                          None \<Rightarrow> (Inl TypeError, s')
                        | Some actual \<Rightarrow>
                            (case trySetWorkspaceData isLinux s'
                                    \<lparr> wd_id = ws_id actual, wd_name = ws_name actual,
                                      wd_folders = map Object newWorkspaceFolders \<rparr>
                             of (accepted, s'') \<Rightarrow> (Inr accepted, s'')))))
         | _ \<Rightarrow> (Inr False, s))"

text \<open>\<^verbatim>\<open>getWorkspaceFolder\<close>, lines 208 to 213.\<close>

definition getWorkspaceFolder :: "ExtHostWorkspace \<Rightarrow> URI \<Rightarrow> bool \<Rightarrow> ref option" where
  "getWorkspaceFolder s u resolveParent =
     (case actualWorkspace s of
        None \<Rightarrow> None
      | Some actual \<Rightarrow> getWorkspaceFolder_impl actual u resolveParent)"

text \<open>
  Modelled from the spec: \<^verbatim>\<open>relative\<close> is Node's and \<^verbatim>\<open>normalize\<close>
  (\<^verbatim>\<open>vs/base/common/paths\<close>) is not among the sources. \<^verbatim>\<open>relative\<close> "computes the path
  of the input relative to the containing folder's location": what the two paths share is
  dropped, and each segment left of the first is a step up. \<^verbatim>\<open>normalize\<close> "normalizes
  directory separators to the platform-neutral form".
\<close>

fun drop_common :: "string list \<Rightarrow> string list \<Rightarrow> string list \<times> string list" where
  "drop_common (x # xs) (y # ys) = (if x = y then drop_common xs ys else (x # xs, y # ys))"
| "drop_common xs ys = (xs, ys)"

fun join_segments :: "string list \<Rightarrow> string" where
  "join_segments [] = []"
| "join_segments [s] = s"
| "join_segments (s # ss) = s @ ''/'' @ join_segments ss"

definition relative :: "string \<Rightarrow> string \<Rightarrow> string" where
  "relative from' to' =
     (case drop_common (path_segments from') (path_segments to') of
        (up, down) \<Rightarrow> join_segments (map (\<lambda>s. ''..'') up @ down))"

definition normalize :: "string \<Rightarrow> string" where
  "normalize p = map (\<lambda>c. if c = CHR 0x5C then CHR ''/'' else c) p"

datatype pathOrUri = PathString string | PathUri URI | PathUndefined

text \<open>
  \<^verbatim>\<open>getRelativePath\<close>, lines 231 to 262; the result \<^verbatim>\<open>None\<close> is \<^verbatim>\<open>undefined\<close>.
\<close>

definition getRelativePath :: "ExtHostWorkspace \<Rightarrow> pathOrUri \<Rightarrow> bool option \<Rightarrow> string option" where
  "getRelativePath s pathOrUri includeWorkspace =
     (let path' = (case pathOrUri of
                     PathString p \<Rightarrow> Some p
                   | PathUri u \<Rightarrow> Some (fsPath u)
                   | PathUndefined \<Rightarrow> None)
      in case path' of
           None \<Rightarrow> None
         | Some p \<Rightarrow>
             if p = [] then Some p
             else
               (case getWorkspaceFolder s
                       (case pathOrUri of PathString q \<Rightarrow> uri_file q | PathUri u \<Rightarrow> u | PathUndefined \<Rightarrow> uri_file p)
                       True
                of None \<Rightarrow> Some p
                 | Some folder \<Rightarrow>
                     let includeWorkspace' =
                           (case includeWorkspace of
                              None \<Rightarrow>
                                (case actualWorkspace s of
                                   Some actual \<Rightarrow> length (workspaceFolders actual) > 1
                                 | None \<Rightarrow> False)
                            | Some b \<Rightarrow> b);
                         result = relative (fsPath (uri (cells (heap s) folder))) p;
                         result' = (if includeWorkspace' then name (cells (heap s) folder) @ ''/'' @ result
                                    else result)
                     in Some (normalize result')))"

subsection \<open>Notions used in the statements\<close>

text \<open>The string form of the location of a folder object.\<close>

definition location :: "store \<Rightarrow> ref \<Rightarrow> string" where
  "location h r = uri_toString (uri (cells h r))"

text \<open>
  \<^verbatim>\<open>isFolderEqual\<close> on string forms, and a set of string forms in which equal locations are
  equal strings: on Linux every set, elsewhere a set without two strings that differ in case
  only.
\<close>

definition same_location :: "bool \<Rightarrow> string \<Rightarrow> string \<Rightarrow> bool" where
  "same_location isLinux a b = (if isLinux then a = b else equalsIgnoreCase a b)"

definition locations_exact :: "bool \<Rightarrow> string set \<Rightarrow> bool" where
  "locations_exact isLinux S \<longleftrightarrow> (\<forall>a \<in> S. \<forall>b \<in> S. same_location isLinux a b \<longrightarrow> a = b)"

text \<open>
  The folders of a list are objects of a store; a store has every object of another store,
  with its location.
\<close>

definition allocated :: "store \<Rightarrow> ref list \<Rightarrow> bool" where
  "allocated h rs \<longleftrightarrow> (\<forall>r \<in> set rs. r < nxt h)"

definition extends :: "store \<Rightarrow> store \<Rightarrow> bool" where
  "extends h h' \<longleftrightarrow> nxt h \<le> nxt h' \<and> (\<forall>r < nxt h. uri (cells h' r) = uri (cells h r))"

text \<open>
  The string form of the location that the folder made or found for an incoming location
  has after \<^verbatim>\<open>toExtHostWorkspace\<close>.
\<close>

definition merged_location :: "bool \<Rightarrow> store \<Rightarrow> ExtHostWorkspaceImpl \<Rightarrow> URI \<Rightarrow> string" where
  "merged_location isLinux h ws u =
     (case findFolder isLinux h ws u of Some e \<Rightarrow> location h e | None \<Rightarrow> uri_toString u)"

definition incoming_location ::
    "bool \<Rightarrow> store \<Rightarrow> ExtHostWorkspaceImpl option \<Rightarrow> ExtHostWorkspaceImpl option \<Rightarrow> URI \<Rightarrow> string" where
  "incoming_location isLinux h conf unconf u =
     (case conf of
        None \<Rightarrow> uri_toString u
      | Some c \<Rightarrow> merged_location isLinux h (case unconf of Some w \<Rightarrow> w | None \<Rightarrow> c) u)"

text \<open>
  The folders of both workspaces of a state are objects of its store; the string forms of the
  locations of incoming data.
\<close>

definition store_ok :: "ExtHostWorkspace \<Rightarrow> bool" where
  "store_ok s \<longleftrightarrow>
     (case confirmedWorkspace s of None \<Rightarrow> True | Some w \<Rightarrow> allocated (heap s) (workspaceFolders w))
     \<and> (case unconfirmedWorkspace s of None \<Rightarrow> True | Some w \<Rightarrow> allocated (heap s) (workspaceFolders w))"

definition data_locations :: "WorkspaceFolder IWorkspaceData option \<Rightarrow> string set" where
  "data_locations data =
     (case data of None \<Rightarrow> {} | Some d \<Rightarrow> (\<lambda>f. uri_toString (uri f)) ` set (wd_folders d))"

text \<open>The folders of a workspace that may be absent.\<close>

definition folders_of :: "ExtHostWorkspaceImpl option \<Rightarrow> ref list" where
  "folders_of w = (case w of None \<Rightarrow> [] | Some x \<Rightarrow> workspaceFolders x)"

text \<open>
  The key of a folder in the search tree of its workspace, the location that
  \<^verbatim>\<open>getWorkspaceFolder\<close> looks up, and what it means that a result is the folder whose
  location is the longest prefix of the segments asked for.
\<close>

definition folder_key :: "store \<Rightarrow> ref \<Rightarrow> string list" where
  "folder_key h r = path_segments (location h r)"

definition lookup_uri :: "store \<Rightarrow> ref list \<Rightarrow> URI \<Rightarrow> bool \<Rightarrow> URI" where
  "lookup_uri h fs u resolveParent =
     (if resolveParent \<and> list_ex (\<lambda>r. folder_key h r = path_segments (uri_toString u)) fs
      then u\<lparr> path := dirname (path u) \<rparr> else u)"

definition longest_prefix_folder :: "store \<Rightarrow> ref list \<Rightarrow> string list \<Rightarrow> ref option \<Rightarrow> bool" where
  "longest_prefix_folder h fs q res =
     (case res of
        None \<Rightarrow> \<forall>r \<in> set fs. \<not> prefix (folder_key h r) q
      | Some r \<Rightarrow>
          r \<in> set fs \<and> prefix (folder_key h r) q
          \<and> (\<forall>r' \<in> set fs. prefix (folder_key h r') q
                \<longrightarrow> length (folder_key h r') \<le> length (folder_key h r)))"

text \<open>
  Whether \<^verbatim>\<open>getRelativePath\<close> puts the name of the folder in front, and the string it
  hands to \<^verbatim>\<open>normalize\<close>.
\<close>

definition includes_name :: "ExtHostWorkspace \<Rightarrow> bool option \<Rightarrow> bool" where
  "includes_name s includeWorkspace =
     (case includeWorkspace of None \<Rightarrow> 1 < length (currentWorkspaceFolders s) | Some b \<Rightarrow> b)"

definition relative_in :: "ExtHostWorkspace \<Rightarrow> ref \<Rightarrow> string \<Rightarrow> bool option \<Rightarrow> string" where
  "relative_in s folder p includeWorkspace =
     (if includes_name s includeWorkspace then name (cells (heap s) folder) @ ''/'' else [])
     @ relative (fsPath (uri (cells (heap s) folder))) p"

text \<open>
  The workspace in which \<^verbatim>\<open>toExtHostWorkspace\<close> looks for existing folders (line 66), and
  the position of the last incoming folder that has the location of the one at position
  \<^verbatim>\<open>j\<close>.
\<close>

definition lookup_workspace :: "ExtHostWorkspaceImpl \<Rightarrow> ExtHostWorkspaceImpl option \<Rightarrow> ExtHostWorkspaceImpl" where
  "lookup_workspace confirmed unconfirmed = (case unconfirmed of Some u \<Rightarrow> u | None \<Rightarrow> confirmed)"

definition last_with_location :: "bool \<Rightarrow> WorkspaceFolder list \<Rightarrow> nat \<Rightarrow> nat" where
  "last_with_location isLinux ds j =
     last (filter (\<lambda>k. isFolderEqual isLinux (uri (ds ! k)) (uri (ds ! j))) [j ..< length ds])"

text \<open>
  The folders of a list have their positions as ordinals; every object of a store is the
  same in another store.
\<close>

definition ordinals_match :: "store \<Rightarrow> ref list \<Rightarrow> bool" where
  "ordinals_match h fs \<longleftrightarrow> (\<forall>k < length fs. index (cells h (fs ! k)) = int k)"

definition same_objects :: "store \<Rightarrow> store \<Rightarrow> bool" where
  "same_objects h h' \<longleftrightarrow> (\<forall>r < nxt h. cells h' r = cells h r)"

text \<open>
  Every object of a store has its location and its name in another store, and is the same
  there when it is not in a list of folders.
\<close>

definition same_but_ordinals :: "store \<Rightarrow> ref list \<Rightarrow> store \<Rightarrow> bool" where
  "same_but_ordinals h fs h' \<longleftrightarrow>
     (\<forall>r < nxt h. uri (cells h' r) = uri (cells h r) \<and> name (cells h' r) = name (cells h r)
                   \<and> (r \<notin> set fs \<longrightarrow> cells h' r = cells h r))"

text \<open>
  The store and the list that lines 184 to 186 of \<^verbatim>\<open>updateWorkspaceFolders\<close> make for a
  call, and the delta that line 187 takes.
\<close>

definition edited ::
    "bool \<Rightarrow> ExtHostWorkspace \<Rightarrow> js_number \<Rightarrow> js_number \<Rightarrow> FolderToAdd list \<Rightarrow> store \<times> ref list" where
  "edited isLinux s i n toAdd =
     edit_folders (heap s) (currentWorkspaceFolders s)
       (actualStart i (length (currentWorkspaceFolders s)))
       (actualDeleteCount n (length (currentWorkspaceFolders s))
          (actualStart i (length (currentWorkspaceFolders s))))
       (validate_folders isLinux toAdd [])"

definition edit_delta ::
    "bool \<Rightarrow> ExtHostWorkspace \<Rightarrow> js_number \<Rightarrow> js_number \<Rightarrow> FolderToAdd list \<Rightarrow> ref list \<times> ref list" where
  "edit_delta isLinux s i n toAdd =
     (case edited isLinux s i n toAdd of
        (h, new) \<Rightarrow>
          delta (currentWorkspaceFolders s) new
            (on_objects h (compareWorkspaceFolderByUriAndNameAndIndex isLinux)))"

subsection \<open>Example states\<close>

definition folder_a :: WorkspaceFolder where
  "folder_a = \<lparr> uri = uri_file ''/ws/a'', name = ''a'', index = 0 \<rparr>"

definition folder_b :: WorkspaceFolder where
  "folder_b = \<lparr> uri = uri_file ''/ws/b'', name = ''b'', index = 1 \<rparr>"

definition data_a :: "WorkspaceFolder IWorkspaceData" where
  "data_a = \<lparr> wd_id = ''id'', wd_name = ''ws'', wd_folders = [folder_a] \<rparr>"

definition data_ab :: "WorkspaceFolder IWorkspaceData" where
  "data_ab = \<lparr> wd_id = ''id'', wd_name = ''ws'', wd_folders = [folder_a, folder_b] \<rparr>"

definition data_renamed :: "WorkspaceFolder IWorkspaceData" where
  "data_renamed = \<lparr> wd_id = ''id'', wd_name = ''ws'', wd_folders = [folder_a\<lparr> name := ''renamed'' \<rparr>] \<rparr>"

definition data_twice :: "WorkspaceFolder IWorkspaceData" where
  "data_twice = \<lparr> wd_id = ''id'', wd_name = ''ws'',
       wd_folders = [\<lparr> uri = uri_file ''/ws/a'', name = ''x'', index = 0 \<rparr>,
                     \<lparr> uri = uri_file ''/ws/a'', name = ''y'', index = 1 \<rparr>] \<rparr>"

definition data_case :: "WorkspaceFolder IWorkspaceData" where
  "data_case = \<lparr> wd_id = ''id'', wd_name = ''ws'',
       wd_folders = [\<lparr> uri = uri_file ''/ws/B'', name = ''B'', index = 0 \<rparr>,
                     \<lparr> uri = uri_file ''/ws/a'', name = ''a'', index = 1 \<rparr>,
                     \<lparr> uri = uri_file ''/ws/b'', name = ''b'', index = 2 \<rparr>] \<rparr>"

definition data_cb :: "WorkspaceFolder IWorkspaceData" where
  "data_cb = \<lparr> wd_id = ''id'', wd_name = ''ws'',
       wd_folders = [\<lparr> uri = uri_file ''/ws/c'', name = ''c'', index = 1 \<rparr>,
                     \<lparr> uri = uri_file ''/ws/b'', name = ''b'', index = 0 \<rparr>] \<rparr>"

definition add_a :: "FolderToAdd list" where
  "add_a = [\<lparr> add_uri = Some (uri_file ''/ws/a''), add_name = Some ''a'' \<rparr>]"

definition add_b :: "FolderToAdd list" where
  "add_b = [\<lparr> add_uri = Some (uri_file ''/ws/b''), add_name = Some ''b'' \<rparr>]"

definition single_root :: ExtHostWorkspace where
  "single_root = new_ExtHostWorkspace True (Some []) (Some data_a)"

definition multi_root :: ExtHostWorkspace where
  "multi_root = new_ExtHostWorkspace True (Some []) (Some data_ab)"

definition no_workspace :: ExtHostWorkspace where
  "no_workspace = new_ExtHostWorkspace True (Some []) None"

text \<open>The state after \<^verbatim>\<open>updateWorkspaceFolders('ext', 0, 0, { uri: /ws/a, name: 'a' })\<close>.\<close>

definition multi_root_edited :: ExtHostWorkspace where
  "multi_root_edited =
     snd (updateWorkspaceFolders True multi_root ''ext'' (Num (Finite 0)) (Num (Finite 0)) add_a)"

section \<open>Lemmas about the script\<close>

lemma get_prop_lacks:
  "lacks v k \<Longrightarrow> get_prop v k = Inl TypeError \<or> get_prop v k = Inr JUndefined"
  by (cases v) (auto simp: lacks_def)

lemma each_localization_lacks:
  assumes "lacks l ''languageId'' \<or> lacks l ''languageName'' \<or> lacks l ''translations''"
  shows "snd (each_localization env f l) \<noteq> None"
proof -
  have "get_prop l ''languageId'' = Inl TypeError \<or> get_prop l ''languageId'' = Inr JUndefined
        \<or> get_prop l ''languageName'' = Inl TypeError \<or> get_prop l ''languageName'' = Inr JUndefined
        \<or> get_prop l ''translations'' = Inl TypeError \<or> get_prop l ''translations'' = Inr JUndefined"
    using assms get_prop_lacks by blast
  then show ?thesis
    by (auto simp: each_localization_def split: sum.splits)
qed

lemma forEach_localization_lacks:
  assumes "\<exists>l \<in> set ls. lacks l ''languageId'' \<or> lacks l ''languageName'' \<or> lacks l ''translations''"
  shows "snd (forEach_localization env f ls) \<noteq> None"
  using assms
proof (induction ls)
  case Nil
  then show ?case by simp
next
  case (Cons l ls)
  show ?case
  proof (cases "snd (each_localization env f l)")
    case (Some e)
    then show ?thesis by (cases "each_localization env f l") simp
  next
    case None
    with Cons.prems each_localization_lacks [of l env f]
    have "\<exists>l \<in> set ls. lacks l ''languageId'' \<or> lacks l ''languageName'' \<or> lacks l ''translations''"
      by auto
    from Cons.IH [OF this] None show ?thesis
      by (cases "each_localization env f l"; cases "forEach_localization env f ls") auto
  qed
qed

lemma update_missing_argument: "raises (update env None)"
  by (simp add: update_def raises_def)

lemma run_script_missing_argument:
  "basename script = ''update-localization-extension.js'' \<Longrightarrow> raises (run_script env node script [])"
  by (simp add: run_script_def update_missing_argument)

lemma update_no_directory:
  assumes "\<not> is_directory (lookupPath env (resolved_target p))"
  shows "raises (update env (Some p))"
  using assms
  by (auto simp: update_def raises_def resolved_target_def is_directory_def statSync_def
      readFileSync_in_def no_directory_test_def Let_def split: option.splits node.splits)

lemma update_with_manifest:
  assumes "manifest env p = Some pkg"
  shows "raises (update env (Some p)) \<or>
         update env (Some p) = update_manifest env (resolved_target p) pkg"
proof (cases "p = []")
  case True
  then show ?thesis by (simp add: update_def raises_def)
next
  case False
  from assms obtain content where
    r: "readFileSync_in env (resolved_target p) ''package.json'' = Inr content"
    and t: "parseJSON env content = Some pkg"
    by (auto simp: manifest_def split: sum.splits)
  from r obtain n where "lookupPath env (resolved_target p) = Some n"
    by (auto simp: readFileSync_in_def split: option.splits)
  then have s: "statSync env (resolved_target p) = Inr n"
    by (simp add: statSync_def)
  from False r t s have "update env (Some p) = update_manifest env (resolved_target p) pkg"
    unfolding update_def Let_def resolved_target_def [symmetric]
    by (simp add: no_directory_test_def)
  then show ?thesis ..
qed

lemma update_manifest_no_localizations:
  assumes "lacks pkg ''contributes'' \<or> lacks (contributes_of pkg) ''localizations''
         \<or> \<not> is_list (localizations_of pkg)"
  shows "snd (update_manifest env f pkg) \<noteq> None"
proof -
  have n: "\<not> is_list (localizations_of pkg)"
    using assms
    by (cases pkg; cases "contributes_of pkg")
       (auto simp: lacks_def contributes_of_def localizations_of_def is_list_def
             split: option.splits)
  show ?thesis
  proof (cases "get_prop pkg ''contributes''")
    case (Inl e)
    then show ?thesis by (simp add: update_manifest_def)
  next
    case c: (Inr c)
    show ?thesis
    proof (cases "get_prop c ''localizations''")
      case (Inl e)
      with c show ?thesis by (simp add: update_manifest_def)
    next
      case (Inr l)
      with c n have "\<not> is_list l"
        by (simp add: contributes_of_def localizations_of_def)
      with c Inr show ?thesis
        by (cases l) (simp_all add: update_manifest_def is_list_def)
    qed
  qed
qed

lemma update_manifest_bad_localization:
  assumes "localizations_of pkg = JArray ls"
    and "\<exists>l \<in> set ls. lacks l ''languageId'' \<or> lacks l ''languageName'' \<or> lacks l ''translations''"
  shows "snd (update_manifest env f pkg) \<noteq> None"
proof -
  have e: "snd (forEach_localization env f ls) \<noteq> None"
    using assms(2) by (rule forEach_localization_lacks)
  show ?thesis
  proof (cases "get_prop pkg ''contributes''")
    case (Inl e)
    then show ?thesis by (simp add: update_manifest_def)
  next
    case c: (Inr c)
    show ?thesis
    proof (cases "get_prop c ''localizations''")
      case (Inl e)
      with c show ?thesis by (simp add: update_manifest_def)
    next
      case (Inr l)
      with c assms(1) have "l = JArray ls"
        by (simp add: contributes_of_def localizations_of_def)
      with c Inr e show ?thesis
        by (simp add: update_manifest_def)
    qed
  qed
qed

lemma update_no_localizations:
  assumes "manifest env p = Some pkg"
    and "lacks pkg ''contributes'' \<or> lacks (contributes_of pkg) ''localizations''
         \<or> \<not> is_list (localizations_of pkg)"
  shows "raises (update env (Some p))"
  using update_with_manifest [OF assms(1)] update_manifest_no_localizations [OF assms(2)]
  by (auto simp: raises_def)

lemma update_bad_localization:
  assumes "manifest env p = Some pkg"
    and "localizations_of pkg = JArray ls"
    and "\<exists>l \<in> set ls. lacks l ''languageId'' \<or> lacks l ''languageName'' \<or> lacks l ''translations''"
  shows "raises (update env (Some p))"
  using update_with_manifest [OF assms(1)] update_manifest_bad_localization [OF assms(2,3)]
  by (auto simp: raises_def)

section \<open>The claims about the script\<close>

text \<open>
  C9. \<^verbatim>\<open>update\<close> ends with a thrown exception, which nothing catches and which aborts the
  process, in each of these cases: the argument is missing, also when the script is run
  without argument; nothing is found at the resolved
  target path, or what is found is not a directory; the manifest read from \<^verbatim>\<open>package.json\<close>
  has no \<^verbatim>\<open>contributes\<close> section, or that section has no \<^verbatim>\<open>localizations\<close>, or the
  \<^verbatim>\<open>localizations\<close> are not a list; some entry of the list lacks \<^verbatim>\<open>languageId\<close>,
  \<^verbatim>\<open>languageName\<close> or \<^verbatim>\<open>translations\<close>.
\<close>

theorem update_raises_hard_errors:
  "raises (update env None)
   \<and> (basename script = ''update-localization-extension.js'' \<longrightarrow> raises (run_script env node script []))
   \<and> (\<not> is_directory (lookupPath env (resolved_target p)) \<longrightarrow> raises (update env (Some p)))
   \<and> (manifest env p = Some pkg
        \<and> (lacks pkg ''contributes'' \<or> lacks (contributes_of pkg) ''localizations''
             \<or> \<not> is_list (localizations_of pkg))
        \<longrightarrow> raises (update env (Some p)))
   \<and> (manifest env p = Some pkg \<and> localizations_of pkg = JArray ls
        \<and> (\<exists>l \<in> set ls. lacks l ''languageId'' \<or> lacks l ''languageName''
                            \<or> lacks l ''translations'')
        \<longrightarrow> raises (update env (Some p)))"
  using update_missing_argument update_no_directory update_no_localizations
    update_bad_localization run_script_missing_argument
  by blast

theorem update_raises_hard_errors_witness:
  "manifest example_env ''de'' = Some example_manifest
   \<and> localizations_of example_manifest
       = JArray [JObject [(''languageId'', JString ''de''), (''languageName'', JString ''German'')]]
   \<and> lacks (JObject [(''languageId'', JString ''de''), (''languageName'', JString ''German'')])
         ''translations''
   \<and> raises (update example_env (Some ''de''))
   \<and> \<not> is_directory (lookupPath example_env (resolved_target ''/tmp/nowhere''))
   \<and> raises (update example_env (Some ''/tmp/nowhere''))
   \<and> basename ''build/npm/update-localization-extension.js'' = ''update-localization-extension.js''
   \<and> raises (run_script example_env ''node'' ''build/npm/update-localization-extension.js'' [])"
proof -
  have m: "manifest example_env ''de'' = Some example_manifest"
    by (simp add: manifest_def example_env_def resolved_target_def readFileSync_in_def
        word_char_def)
  have l: "localizations_of example_manifest
       = JArray [JObject [(''languageId'', JString ''de''), (''languageName'', JString ''German'')]]"
    by (simp add: localizations_of_def contributes_of_def example_manifest_def)
  have k: "lacks (JObject [(''languageId'', JString ''de''), (''languageName'', JString ''German'')])
         ''translations''"
    by (simp add: lacks_def)
  have d: "\<not> is_directory (lookupPath example_env (resolved_target ''/tmp/nowhere''))"
    by (simp add: is_directory_def example_env_def resolved_target_def)
  have b: "basename ''build/npm/update-localization-extension.js'' = ''update-localization-extension.js''"
    by (simp add: basename_def)
  from m l k d b
    update_raises_hard_errors [of example_env "''build/npm/update-localization-extension.js''"
      "''node''" "''de''" example_manifest
      "[JObject [(''languageId'', JString ''de''), (''languageName'', JString ''German'')]]"]
    update_raises_hard_errors [of example_env "''build/npm/update-localization-extension.js''"
      "''node''" "''/tmp/nowhere''" example_manifest "[]"]
  show ?thesis
    by simp
qed

section \<open>Lemmas about the workspace folders\<close>

lemma length_js_insert [simp]: "length (js_insert cmp x ys) = Suc (length ys)"
  by (induction ys) auto

lemma mset_js_insert [simp]: "mset (js_insert cmp x ys) = add_mset x (mset ys)"
  by (induction ys) auto

lemma mset_foldl_js_insert:
  "mset (foldl (\<lambda>sorted x. js_insert cmp x sorted) acc xs) = mset acc + mset xs"
  by (induction xs arbitrary: acc) auto

lemma mset_js_sort [simp]: "mset (js_sort cmp xs) = mset xs"
  by (simp add: js_sort_def mset_foldl_js_insert)

lemma set_js_sort [simp]: "set (js_sort cmp xs) = set xs"
  using mset_js_sort [of cmp xs] by (metis set_mset_mset)

lemma length_js_sort [simp]: "length (js_sort cmp xs) = length xs"
  using mset_js_sort [of cmp xs] by (metis size_mset)

lemma js_sort_Nil [simp]: "js_sort cmp [] = []"
  by (simp add: js_sort_def)

lemma js_sort_eq_Nil [simp]: "js_sort cmp xs = [] \<longleftrightarrow> xs = []"
  using length_js_sort [of cmp xs] by (metis length_0_conv)

lemma arrayDelta_Nil_left [simp]: "arrayDelta [] ys cmp = ([], ys)"
  by simp

lemma arrayDelta_lengths:
  "length (fst (arrayDelta xs ys cmp)) + length ys = length (snd (arrayDelta xs ys cmp)) + length xs"
  by (induction xs ys cmp rule: arrayDelta.induct) (auto split: prod.splits)

lemma delta_lengths:
  "length (fst (delta xs ys cmp)) + length ys = length (snd (delta xs ys cmp)) + length xs"
  using arrayDelta_lengths [of "js_sort cmp xs" "js_sort cmp ys" cmp]
  by (simp add: delta_def Let_def)

lemma delta_empty_lengths:
  "delta xs ys cmp = ([], []) \<Longrightarrow> length xs = length ys"
  using delta_lengths [of xs ys cmp] by simp

lemma delta_Nil_left [simp]: "delta [] ys cmp = ([], js_sort cmp ys)"
  by (simp add: delta_def)

lemma length_alloc_all: "alloc_all h fs = (h', rs) \<Longrightarrow> length rs = length fs"
  by (induction fs arbitrary: h h' rs) (auto simp: alloc_def split: prod.splits)

lemma isFolderEqual_same_location:
  "isFolderEqual isLinux a b = same_location isLinux (uri_toString a) (uri_toString b)"
  by (simp add: isFolderEqual_def isEqual_def same_location_def)

lemma same_location_refl [simp]: "same_location isLinux a a"
  by (simp add: same_location_def equalsIgnoreCase_def)

lemma same_location_sym: "same_location isLinux a b \<Longrightarrow> same_location isLinux b a"
  by (auto simp: same_location_def equalsIgnoreCase_def split: if_splits)

lemma same_location_trans:
  "same_location isLinux a b \<Longrightarrow> same_location isLinux b c \<Longrightarrow> same_location isLinux a c"
  by (auto simp: same_location_def equalsIgnoreCase_def split: if_splits)

lemma locations_exact_Linux [simp]: "locations_exact True S"
  by (simp add: locations_exact_def same_location_def)

lemma locations_exact_mono: "locations_exact isLinux S \<Longrightarrow> T \<subseteq> S \<Longrightarrow> locations_exact isLinux T"
  by (auto simp: locations_exact_def)

lemma extends_refl [simp]: "extends h h"
  by (simp add: extends_def)

lemma extends_trans: "extends h h1 \<Longrightarrow> extends h1 h2 \<Longrightarrow> extends h h2"
  by (auto simp: extends_def)

lemma extends_location: "extends h h' \<Longrightarrow> r < nxt h \<Longrightarrow> location h' r = location h r"
  by (simp add: extends_def location_def)

lemma extends_allocated: "extends h h' \<Longrightarrow> allocated h rs \<Longrightarrow> allocated h' rs"
  by (auto simp: extends_def allocated_def)

lemma findFolder_extends:
  assumes "extends h h'" and "allocated h (workspaceFolders ws)"
  shows "findFolder isLinux h' ws u = findFolder isLinux h ws u"
proof -
  have "\<And>r. r \<in> set (workspaceFolders ws) \<Longrightarrow> uri (cells h' r) = uri (cells h r)"
    using assms by (simp add: extends_def allocated_def)
  then show ?thesis
    unfolding findFolder_def by (intro find_cong) simp_all
qed

lemma findFolder_string:
  "uri_toString u = uri_toString u' \<Longrightarrow> findFolder isLinux h ws u = findFolder isLinux h ws u'"
  by (simp add: findFolder_def isFolderEqual_same_location)

lemma findFolder_Some:
  "findFolder isLinux h ws u = Some r \<Longrightarrow>
     r \<in> set (workspaceFolders ws) \<and> same_location isLinux (location h r) (uri_toString u)"
  by (auto simp: findFolder_def find_Some_iff isFolderEqual_same_location location_def)

lemma findFolder_None:
  "findFolder isLinux h ws u = None \<longleftrightarrow>
     (\<forall>r \<in> set (workspaceFolders ws). \<not> same_location isLinux (location h r) (uri_toString u))"
  by (auto simp: findFolder_def find_None_iff isFolderEqual_same_location location_def)

lemma merged_location_same:
  "same_location isLinux (merged_location isLinux h ws u) (uri_toString u)"
  by (auto simp: merged_location_def dest: findFolder_Some split: option.splits)

lemma merged_location_string:
  "uri_toString u = uri_toString u' \<Longrightarrow> merged_location isLinux h ws u = merged_location isLinux h ws u'"
  using findFolder_string [of u u' isLinux h ws]
  by (simp add: merged_location_def split: option.splits)

lemma alloc_props:
  assumes "alloc h f = (r, h')"
  shows "r = nxt h" and "nxt h' = Suc (nxt h)" and "cells h' = (cells h)(nxt h := f)"
  using assms by (auto simp: alloc_def)

lemma alloc_all_props:
  assumes "alloc_all h fs = (h', rs)"
  shows "nxt h' = nxt h + length fs \<and> rs = [nxt h ..< nxt h + length fs]
         \<and> (\<forall>r < nxt h. cells h' r = cells h r) \<and> map (cells h') rs = fs"
  using assms
proof (induction fs arbitrary: h h' rs)
  case Nil
  then show ?case by simp
next
  case (Cons f fs)
  obtain r h1 where a: "alloc h f = (r, h1)" by (cases "alloc h f")
  obtain h2 rs' where b: "alloc_all h1 fs = (h2, rs')" by (cases "alloc_all h1 fs")
  from Cons.prems a b have e: "h' = h2" "rs = r # rs'" by simp_all
  note p = alloc_props [OF a]
  note ih = Cons.IH [OF b]
  have 1: "nxt h' = nxt h + length (f # fs)" using ih p e by simp
  have 2: "rs = [nxt h ..< nxt h + length (f # fs)]"
    using ih p e by (simp add: upt_rec)
  have 3: "\<forall>r < nxt h. cells h' r = cells h r" using ih p e by simp
  have "cells h2 r = f" using ih p by simp
  moreover have "map (cells h2) rs' = fs" using ih by blast
  ultimately have 4: "map (cells h') rs = f # fs" using e by simp
  from 1 2 3 4 show ?case by blast
qed

lemma alloc_all_extends: "alloc_all h fs = (h', rs) \<Longrightarrow> extends h h' \<and> allocated h' rs"
  using alloc_all_props [of h fs h' rs] by (auto simp: extends_def allocated_def)

lemma merge_folder_found:
  assumes "merge_folder isLinux ws (Received d) i h = (r, h1)"
    and "findFolder isLinux h ws (uri d) = Some e"
  shows "r = e" and "nxt h1 = nxt h"
    and "cells h1 = (cells h)(e := (cells h e)\<lparr> name := name d, index := index d \<rparr>)"
  using assms by (auto simp: merge_folder_def Let_def)

lemma merge_folder_fresh:
  assumes "merge_folder isLinux ws (Received d) i h = (r, h1)"
    and "findFolder isLinux h ws (uri d) = None"
  shows "r = nxt h" and "nxt h1 = Suc (nxt h)"
    and "cells h1 = (cells h)(nxt h := \<lparr> uri = uri d, name = name d, index = int i \<rparr>)"
  using assms by (auto simp: merge_folder_def Let_def alloc_def)

lemma merge_folder_Received:
  assumes "merge_folder isLinux ws (Received d) i h = (r, h1)"
    and "allocated h (workspaceFolders ws)"
  shows "extends h h1 \<and> r < nxt h1 \<and> location h1 r = merged_location isLinux h ws (uri d)
        \<and> name (cells h1 r) = name d"
proof (cases "findFolder isLinux h ws (uri d)")
  case None
  from merge_folder_fresh [OF assms(1) None]
  show ?thesis
    using None by (simp add: extends_def merged_location_def location_def)
next
  case (Some e)
  from findFolder_Some [OF Some] assms(2) have "e < nxt h"
    by (simp add: allocated_def)
  with merge_folder_found [OF assms(1) Some]
  show ?thesis
    using Some by (simp add: extends_def merged_location_def location_def)
qed

lemma forEach_acc:
  "forEach_folderData isLinux ws fds i (h, acc) =
     (case forEach_folderData isLinux ws fds i (h, []) of (h', out) \<Rightarrow> (h', acc @ out))"
proof (induction fds arbitrary: i h acc)
  case Nil
  then show ?case by simp
next
  case (Cons fd fds)
  obtain r h1 where m: "merge_folder isLinux ws fd i h = (r, h1)"
    by (cases "merge_folder isLinux ws fd i h")
  show ?case
    using Cons.IH [of "Suc i" h1 "acc @ [r]"] Cons.IH [of "Suc i" h1 "[r]"] m
    by (simp split: prod.splits)
qed

lemma forEach_Cons:
  assumes "merge_folder isLinux ws fd i h = (r, h1)"
    and "forEach_folderData isLinux ws fds (Suc i) (h1, []) = (h', out)"
  shows "forEach_folderData isLinux ws (fd # fds) i (h, []) = (h', r # out)"
  using assms forEach_acc [of isLinux ws fds "Suc i" h1 "[r]"] by simp

lemma merged_location_extends:
  assumes "extends h h1" and "allocated h (workspaceFolders ws)"
  shows "merged_location isLinux h1 ws u = merged_location isLinux h ws u"
proof -
  have f: "findFolder isLinux h1 ws u = findFolder isLinux h ws u"
    using assms by (rule findFolder_extends)
  show ?thesis
  proof (cases "findFolder isLinux h ws u")
    case None
    with f show ?thesis by (simp add: merged_location_def)
  next
    case (Some e)
    from findFolder_Some [OF Some] assms(2) have "e < nxt h"
      by (simp add: allocated_def)
    with assms(1) have "location h1 e = location h e"
      by (simp add: extends_location)
    with f Some show ?thesis by (simp add: merged_location_def)
  qed
qed

lemma forEach_received:
  assumes "forEach_folderData isLinux ws (map Received ds) i (h, []) = (h', out)"
    and "allocated h (workspaceFolders ws)"
  shows "extends h h' \<and> allocated h' out \<and> length out = length ds
         \<and> map (location h') out = map (\<lambda>d. merged_location isLinux h ws (uri d)) ds"
  using assms
proof (induction ds arbitrary: i h h' out)
  case Nil
  then show ?case by (simp add: allocated_def)
next
  case (Cons d ds)
  obtain r h1 where m: "merge_folder isLinux ws (Received d) i h = (r, h1)"
    by (cases "merge_folder isLinux ws (Received d) i h")
  obtain h2 out' where f: "forEach_folderData isLinux ws (map Received ds) (Suc i) (h1, []) = (h2, out')"
    by (cases "forEach_folderData isLinux ws (map Received ds) (Suc i) (h1, [])")
  from forEach_Cons [OF m f] Cons.prems(1) have e: "h' = h2" "out = r # out'"
    by simp_all
  from merge_folder_Received [OF m Cons.prems(2)]
  have x: "extends h h1" and r: "r < nxt h1"
    and l: "location h1 r = merged_location isLinux h ws (uri d)"
    by simp_all
  have a1: "allocated h1 (workspaceFolders ws)"
    using x Cons.prems(2) by (rule extends_allocated)
  from Cons.IH [OF f a1]
  have x2: "extends h1 h2" and a2: "allocated h2 out'" and n: "length out' = length ds"
    and ls: "map (location h2) out' = map (\<lambda>d. merged_location isLinux h1 ws (uri d)) ds"
    by simp_all
  have 1: "extends h h'" using x x2 e by (auto intro: extends_trans)
  have "r < nxt h2" using r x2 by (simp add: extends_def)
  then have 2: "allocated h' out" using a2 e by (simp add: allocated_def)
  have 3: "length out = length (d # ds)" using n e by simp
  have "location h2 r = location h1 r" using x2 r by (rule extends_location)
  then have 4: "map (location h') out = map (\<lambda>d. merged_location isLinux h ws (uri d)) (d # ds)"
    using l ls e merged_location_extends [OF x Cons.prems(2)] by simp
  from 1 2 3 4 show ?case by blast
qed

lemma set_js_insert [simp]: "set (js_insert cmp x ys) = insert x (set ys)"
  by (induction ys) auto

lemma js_insert_sorted:
  fixes key :: "'a \<Rightarrow> 'k::linorder"
  assumes "sorted (map key ys)" and "\<forall>y \<in> set ys. (cmp x y < 0) = (key x < key y)"
  shows "sorted (map key (js_insert cmp x ys))"
  using assms
proof (induction ys)
  case Nil
  then show ?case by simp
next
  case (Cons y ys)
  show ?case
  proof (cases "cmp x y < 0")
    case True
    with Cons.prems have "key x < key y" by simp
    with Cons.prems(1) True show ?thesis by fastforce
  next
    case False
    with Cons.prems have k: "key y \<le> key x" by (simp add: not_less)
    have "sorted (map key (js_insert cmp x ys))"
      using Cons.IH Cons.prems by simp
    moreover have "\<forall>z \<in> set (js_insert cmp x ys). key y \<le> key z"
    proof
      fix z assume "z \<in> set (js_insert cmp x ys)"
      then have "z = x \<or> z \<in> set ys" by simp
      with k Cons.prems(1) show "key y \<le> key z" by auto
    qed
    ultimately show ?thesis using False by simp
  qed
qed

lemma foldl_js_insert_sorted:
  fixes key :: "'a \<Rightarrow> 'k::linorder"
  assumes "sorted (map key acc)"
    and "\<forall>a \<in> set xs. \<forall>b \<in> set acc \<union> set xs. (cmp a b < 0) = (key a < key b)"
  shows "sorted (map key (foldl (\<lambda>sorted x. js_insert cmp x sorted) acc xs))"
  using assms
proof (induction xs arbitrary: acc)
  case Nil
  then show ?case by simp
next
  case (Cons x xs)
  have s: "sorted (map key (js_insert cmp x acc))"
    using Cons.prems by (intro js_insert_sorted) auto
  have "\<forall>a \<in> set xs. \<forall>b \<in> set (js_insert cmp x acc) \<union> set xs. (cmp a b < 0) = (key a < key b)"
    using Cons.prems(2) by auto
  from Cons.IH [OF s this] show ?case by simp
qed

lemma js_sort_key:
  fixes key :: "'a \<Rightarrow> 'k::linorder"
  assumes "\<forall>a \<in> set xs. \<forall>b \<in> set xs. (cmp a b < 0) = (key a < key b)"
  shows "map key (js_sort cmp xs) = sort (map key xs)"
proof -
  have "sorted (map key (js_sort cmp xs))"
    unfolding js_sort_def using assms by (intro foldl_js_insert_sorted) auto
  moreover have "mset (map key (js_sort cmp xs)) = mset (map key xs)"
    by simp
  ultimately show ?thesis
    using properties_for_sort [of "map key (js_sort cmp xs)" "map key xs"] by simp
qed

lemma arrayDelta_equal:
  "list_all2 (\<lambda>a b. cmp a b = 0) xs ys \<Longrightarrow> arrayDelta xs ys cmp = ([], [])"
  by (induction xs ys rule: list_all2_induct) auto

lemma delta_empty_by_key:
  fixes key :: "'a \<Rightarrow> 'k::linorder"
  assumes c: "\<forall>a \<in> set xs \<union> set ys. \<forall>b \<in> set xs \<union> set ys.
                (cmp a b < 0) = (key a < key b) \<and> (key a = key b \<longrightarrow> cmp a b = 0)"
    and m: "mset (map key xs) = mset (map key ys)"
  shows "delta xs ys cmp = ([], [])"
proof -
  let ?sx = "js_sort cmp xs" and ?sy = "js_sort cmp ys"
  have "map key ?sx = sort (map key xs)" using c by (intro js_sort_key) auto
  moreover have "map key ?sy = sort (map key ys)" using c by (intro js_sort_key) auto
  moreover have "sort (map key xs) = sort (map key ys)"
    using m by (intro properties_for_sort) simp_all
  ultimately have k: "map key ?sx = map key ?sy" by simp
  then have len: "length ?sx = length ?sy" by (rule map_eq_imp_length_eq)
  have "list_all2 (\<lambda>a b. cmp a b = 0) ?sx ?sy"
  proof (rule list_all2_all_nthI [OF len])
    fix n assume n: "n < length ?sx"
    then have "?sx ! n \<in> set xs" "?sy ! n \<in> set ys"
      using len by (metis nth_mem set_js_sort)+
    moreover have "key (?sx ! n) = key (?sy ! n)"
      using k n len by (metis nth_map)
    ultimately show "cmp (?sx ! n) (?sy ! n) = 0" using c by blast
  qed
  then show ?thesis by (simp add: delta_def arrayDelta_equal)
qed

lemma compare_less [simp]: "(compare a b < 0) = (a < b)"
  by (simp add: compare_def)

lemma delta_by_uri_empty:
  assumes "mset (map (location h) xs) = mset (map (location h) ys)"
    and "locations_exact isLinux (location h ` (set xs \<union> set ys))"
  shows "delta xs ys (on_objects h (compareWorkspaceFolderByUri isLinux)) = ([], [])"
proof (rule delta_empty_by_key [where key = "location h", OF _ assms(1)], intro ballI)
  fix a b assume "a \<in> set xs \<union> set ys" "b \<in> set xs \<union> set ys"
  with assms(2) have "same_location isLinux (location h a) (location h b) \<longrightarrow> location h a = location h b"
    unfolding locations_exact_def by blast
  then show "(on_objects h (compareWorkspaceFolderByUri isLinux) a b < 0) = (location h a < location h b)
      \<and> (location h a = location h b \<longrightarrow> on_objects h (compareWorkspaceFolderByUri isLinux) a b = 0)"
    by (auto simp: on_objects_def compareWorkspaceFolderByUri_def isFolderEqual_same_location
        location_def)
qed

lemma incoming_location_same:
  "same_location isLinux (incoming_location isLinux h conf unconf u) (uri_toString u)"
  by (simp add: incoming_location_def merged_location_same split: option.splits)

lemma incoming_location_string:
  "uri_toString u = uri_toString u' \<Longrightarrow>
     incoming_location isLinux h conf unconf u = incoming_location isLinux h conf unconf u'"
  by (auto simp: incoming_location_def dest: merged_location_string split: option.splits)

lemma workspaceFolders_new [simp]:
  "workspaceFolders (new_ExtHostWorkspaceImpl h i n fs) = fs"
  by (simp add: new_ExtHostWorkspaceImpl_def)

lemma toExt_Some:
  assumes "(case conf of
              Some oldWorkspace \<Rightarrow>
                forEach_folderData isLinux
                  (case unconf of Some u \<Rightarrow> u | None \<Rightarrow> oldWorkspace)
                  (wd_folders d) 0 (h, [])
            | None \<Rightarrow> alloc_all h (map (read_folderData h) (wd_folders d))) = (h1, out)"
    and "ws = new_ExtHostWorkspaceImpl h1 (wd_id d) (wd_name d)
                (js_sort (\<lambda>f1 f2. if index (cells h1 f1) < index (cells h1 f2) then - 1 else 1) out)"
    and "dl = delta (case conf of Some x \<Rightarrow> workspaceFolders x | None \<Rightarrow> [])
                (workspaceFolders ws) (on_objects h1 (compareWorkspaceFolderByUri isLinux))"
  shows "toExtHostWorkspace isLinux h (Some d) conf unconf = (h1, Some ws, snd dl, fst dl)"
  unfolding toExtHostWorkspace_def option.case assms(1) prod.case Let_def
  unfolding assms(2) [symmetric] assms(3) [symmetric]
  by (simp add: case_prod_beta)

lemma toExt_received:
  assumes t: "toExtHostWorkspace isLinux h (Some (received d)) conf unconf = (h', w, a, r)"
    and c: "case conf of None \<Rightarrow> True | Some x \<Rightarrow> allocated h (workspaceFolders x)"
    and u: "case unconf of None \<Rightarrow> True | Some x \<Rightarrow> allocated h (workspaceFolders x)"
  shows "\<exists>ws. w = Some ws \<and> extends h h' \<and> allocated h' (workspaceFolders ws)
           \<and> mset (map (location h') (workspaceFolders ws))
               = mset (map (\<lambda>f. incoming_location isLinux h conf unconf (uri f)) (wd_folders d))
           \<and> (r, a) = delta (case conf of Some x \<Rightarrow> workspaceFolders x | None \<Rightarrow> [])
                         (workspaceFolders ws) (on_objects h' (compareWorkspaceFolderByUri isLinux))"
proof -
  let ?ds = "wd_folders d"
  have w: "wd_folders (received d) = map Received ?ds" "wd_id (received d) = wd_id d"
    "wd_name (received d) = wd_name d"
    by (simp_all add: received_def)
  have m: "map (read_folderData h) (map Received ?ds) = ?ds"
    by (simp add: map_idI)
  have "\<exists>h1 out. (case conf of
                   Some oldWorkspace \<Rightarrow>
                     forEach_folderData isLinux
                       (case unconf of Some u \<Rightarrow> u | None \<Rightarrow> oldWorkspace)
                       (wd_folders (received d)) 0 (h, [])
                 | None \<Rightarrow> alloc_all h (map (read_folderData h) (wd_folders (received d)))) = (h1, out)
        \<and> extends h h1 \<and> allocated h1 out
        \<and> map (location h1) out = map (\<lambda>f. incoming_location isLinux h conf unconf (uri f)) ?ds"
  proof (cases conf)
    case None
    obtain h1 out where al: "alloc_all h ?ds = (h1, out)" by (cases "alloc_all h ?ds")
    from alloc_all_props [OF al] have "map (cells h1) out = ?ds" by blast
    then have "map (\<lambda>f. uri_toString (uri f)) (map (cells h1) out)
        = map (\<lambda>f. uri_toString (uri f)) ?ds"
      by (rule arg_cong)
    then have "map (location h1) out = map (\<lambda>f. uri_toString (uri f)) ?ds"
      unfolding location_def by (simp add: comp_def)
    with alloc_all_extends [OF al] al None show ?thesis
      unfolding w m by (simp add: incoming_location_def)
  next
    case (Some oldWs)
    let ?lk = "case unconf of Some u \<Rightarrow> u | None \<Rightarrow> oldWs"
    obtain h1 out where f: "forEach_folderData isLinux ?lk (map Received ?ds) 0 (h, []) = (h1, out)"
      by (cases "forEach_folderData isLinux ?lk (map Received ?ds) 0 (h, [])")
    have "allocated h (workspaceFolders ?lk)"
      using c u Some by (simp split: option.splits)
    from forEach_received [OF f this] f Some show ?thesis
      unfolding w by (simp add: incoming_location_def)
  qed
  then obtain h1 out where
    e: "(case conf of
           Some oldWorkspace \<Rightarrow>
             forEach_folderData isLinux
               (case unconf of Some u \<Rightarrow> u | None \<Rightarrow> oldWorkspace)
               (wd_folders (received d)) 0 (h, [])
         | None \<Rightarrow> alloc_all h (map (read_folderData h) (wd_folders (received d)))) = (h1, out)"
    and x: "extends h h1" and al: "allocated h1 out"
    and l: "map (location h1) out = map (\<lambda>f. incoming_location isLinux h conf unconf (uri f)) ?ds"
    by blast
  define ws where "ws = new_ExtHostWorkspaceImpl h1 (wd_id (received d)) (wd_name (received d))
                (js_sort (\<lambda>f1 f2. if index (cells h1 f1) < index (cells h1 f2) then - 1 else 1) out)"
  define dl where "dl = delta (case conf of Some x \<Rightarrow> workspaceFolders x | None \<Rightarrow> [])
                (workspaceFolders ws) (on_objects h1 (compareWorkspaceFolderByUri isLinux))"
  from toExt_Some [OF e ws_def dl_def] t
  have r: "h' = h1" "w = Some ws" "a = snd dl" "r = fst dl"
    by simp_all
  have wf: "workspaceFolders ws
      = js_sort (\<lambda>f1 f2. if index (cells h1 f1) < index (cells h1 f2) then - 1 else 1) out"
    by (simp add: ws_def)
  have "allocated h1 (workspaceFolders ws)" using al by (simp add: allocated_def wf)
  moreover have "mset (map (location h1) (workspaceFolders ws)) = mset (map (location h1) out)"
    by (simp add: wf)
  moreover have "(r, a) = dl" using r by simp
  ultimately show ?thesis using r(1,2) x l unfolding dl_def by simp
qed

lemma arrayDelta_msets:
  fixes key :: "'a \<Rightarrow> 'k::linorder"
  assumes "sorted (map key xs)" and "sorted (map key ys)"
    and "\<forall>a \<in> set xs. \<forall>b \<in> set ys. (cmp a b < 0) = (key a < key b) \<and> (cmp a b = 0) = (key a = key b)"
  shows "image_mset key (mset (fst (arrayDelta xs ys cmp)))
           = image_mset key (mset xs) - image_mset key (mset ys)
       \<and> image_mset key (mset (snd (arrayDelta xs ys cmp)))
           = image_mset key (mset ys) - image_mset key (mset xs)"
  using assms
proof (induction xs ys cmp rule: arrayDelta.induct)
  case (1 afterArr cmp)
  then show ?case by simp
next
  case (2 b beforeArr cmp)
  then show ?case by simp
next
  case (3 b bs a as cmp)
  let ?B = "image_mset key (mset bs)" and ?A = "image_mset key (mset as)"
  from "3.prems" have sb: "sorted (map key bs)" and sa: "sorted (map key as)"
    and bb: "\<forall>z \<in> set bs. key b \<le> key z" and aa: "\<forall>z \<in> set as. key a \<le> key z"
    by simp_all
  from "3.prems"(3) have ba: "(cmp b a < 0) = (key b < key a)" "(cmp b a = 0) = (key b = key a)"
    by simp_all
  consider (eq) "cmp b a = 0" | (lt) "cmp b a \<noteq> 0" "cmp b a < 0" | (gt) "cmp b a \<noteq> 0" "\<not> cmp b a < 0"
    by blast
  then show ?case
  proof cases
    case eq
    then have k: "key b = key a" using ba by simp
    have "image_mset key (mset (fst (arrayDelta bs as cmp))) = ?B - ?A
       \<and> image_mset key (mset (snd (arrayDelta bs as cmp))) = ?A - ?B"
      using "3.IH"(1) [OF eq sb sa] "3.prems"(3) by simp
    with eq k show ?thesis by simp
  next
    case lt
    then have k: "key b < key a" using ba by simp
    have n: "key b \<notin># image_mset key (mset (a # as))"
      using k aa by (auto simp: not_le [symmetric])
    have "image_mset key (mset (fst (arrayDelta bs (a # as) cmp))) = ?B - image_mset key (mset (a # as))
       \<and> image_mset key (mset (snd (arrayDelta bs (a # as) cmp))) = image_mset key (mset (a # as)) - ?B"
      using "3.IH"(2) [OF lt sb "3.prems"(2)] "3.prems"(3) by simp
    moreover have "image_mset key (mset (a # as)) - add_mset (key b) ?B = image_mset key (mset (a # as)) - ?B"
      using n by (metis diff_diff_add_mset diff_single_trivial add_mset_add_single union_commute)
    ultimately show ?thesis
      using lt n by (simp add: case_prod_beta del: mset.simps image_mset_add_mset)
           (simp)
  next
    case gt
    then have k: "key a < key b" using ba by (metis not_less_iff_gr_or_eq)
    have n: "key a \<notin># image_mset key (mset (b # bs))"
      using k bb by (auto simp: not_le [symmetric])
    have "image_mset key (mset (fst (arrayDelta (b # bs) as cmp))) = image_mset key (mset (b # bs)) - ?A
       \<and> image_mset key (mset (snd (arrayDelta (b # bs) as cmp))) = ?A - image_mset key (mset (b # bs))"
      using "3.IH"(3) [OF gt "3.prems"(1) sa] "3.prems"(3) by simp
    moreover have "image_mset key (mset (b # bs)) - add_mset (key a) ?A = image_mset key (mset (b # bs)) - ?A"
      using n by (metis diff_diff_add_mset diff_single_trivial add_mset_add_single union_commute)
    ultimately show ?thesis
      using gt n by (simp add: case_prod_beta del: mset.simps image_mset_add_mset)
           (simp)
  qed
qed

lemma delta_msets:
  fixes key :: "'a \<Rightarrow> 'k::linorder"
  assumes "\<forall>a \<in> set xs \<union> set ys. \<forall>b \<in> set xs \<union> set ys.
             (cmp a b < 0) = (key a < key b) \<and> (cmp a b = 0) = (key a = key b)"
  shows "image_mset key (mset (fst (delta xs ys cmp)))
           = image_mset key (mset xs) - image_mset key (mset ys)
       \<and> image_mset key (mset (snd (delta xs ys cmp)))
           = image_mset key (mset ys) - image_mset key (mset xs)"
proof -
  let ?sx = "js_sort cmp xs" and ?sy = "js_sort cmp ys"
  have "map key ?sx = sort (map key xs)" using assms by (intro js_sort_key) auto
  then have sx: "sorted (map key ?sx)" by simp
  have "map key ?sy = sort (map key ys)" using assms by (intro js_sort_key) auto
  then have sy: "sorted (map key ?sy)" by simp
  have c: "\<forall>a \<in> set ?sx. \<forall>b \<in> set ?sy. (cmp a b < 0) = (key a < key b) \<and> (cmp a b = 0) = (key a = key b)"
    using assms by simp
  from arrayDelta_msets [OF sx sy c] show ?thesis
    by (simp add: delta_def)
qed

lemma compare_eq_0 [simp]: "(compare a b = 0) = (a = b)"
  by (auto simp: compare_def)

lemma delta_by_uri_msets:
  assumes "locations_exact isLinux (location h ` (set xs \<union> set ys))"
  shows "image_mset (location h) (mset (fst (delta xs ys (on_objects h (compareWorkspaceFolderByUri isLinux)))))
           = image_mset (location h) (mset xs) - image_mset (location h) (mset ys)
       \<and> image_mset (location h) (mset (snd (delta xs ys (on_objects h (compareWorkspaceFolderByUri isLinux)))))
           = image_mset (location h) (mset ys) - image_mset (location h) (mset xs)"
proof (rule delta_msets, intro ballI)
  fix a b assume "a \<in> set xs \<union> set ys" "b \<in> set xs \<union> set ys"
  with assms have "same_location isLinux (location h a) (location h b) \<longrightarrow> location h a = location h b"
    unfolding locations_exact_def by blast
  then show "(on_objects h (compareWorkspaceFolderByUri isLinux) a b < 0) = (location h a < location h b)
      \<and> (on_objects h (compareWorkspaceFolderByUri isLinux) a b = 0) = (location h a = location h b)"
    by (auto simp: on_objects_def compareWorkspaceFolderByUri_def isFolderEqual_same_location
        location_def)
qed

lemma extends_map_location:
  "extends h h' \<Longrightarrow> allocated h rs \<Longrightarrow> map (location h') rs = map (location h) rs"
  by (simp add: extends_location allocated_def)

lemma remerge_location:
  assumes i: "location h1 ` set (workspaceFolders ws1) = G ` set ds"
    and s: "\<forall>f \<in> set ds. same_location isLinux (G f) (uri_toString (uri f))"
    and g: "\<forall>f \<in> set ds. \<forall>g \<in> set ds. uri_toString (uri f) = uri_toString (uri g) \<longrightarrow> G f = G g"
    and x: "locations_exact isLinux ((\<lambda>f. uri_toString (uri f)) ` set ds)"
    and f: "f \<in> set ds"
  shows "merged_location isLinux h1 ws1 (uri f) = G f"
proof (cases "findFolder isLinux h1 ws1 (uri f)")
  case None
  from f have "G f \<in> G ` set ds" by (rule imageI)
  with i have "G f \<in> location h1 ` set (workspaceFolders ws1)" by simp
  then obtain e where e: "e \<in> set (workspaceFolders ws1)" "location h1 e = G f"
    by (auto simp: image_iff)
  from s f have "same_location isLinux (G f) (uri_toString (uri f))" by blast
  with e have "same_location isLinux (location h1 e) (uri_toString (uri f))" by simp
  with e(1) None show ?thesis unfolding findFolder_None by blast
next
  case (Some e)
  from findFolder_Some [OF Some]
  have e: "e \<in> set (workspaceFolders ws1)"
    and l: "same_location isLinux (location h1 e) (uri_toString (uri f))"
    by simp_all
  from e have "location h1 e \<in> location h1 ` set (workspaceFolders ws1)" by (rule imageI)
  with i have "location h1 e \<in> G ` set ds" by simp
  then obtain g' where gg: "g' \<in> set ds" "location h1 e = G g'"
    by (auto simp: image_iff)
  with s have "same_location isLinux (location h1 e) (uri_toString (uri g'))" by simp
  from same_location_trans [OF same_location_sym [OF this] l]
  have "same_location isLinux (uri_toString (uri g')) (uri_toString (uri f))" .
  with x f gg(1) have "uri_toString (uri g') = uri_toString (uri f)"
    unfolding locations_exact_def by blast
  with g f gg(1) have "G g' = G f" by blast
  with gg(2) have "location h1 e = G f" by simp
  with Some show ?thesis by (simp add: merged_location_def)
qed

lemma merged_exact:
  assumes s: "\<forall>f \<in> set ds. same_location isLinux (G f) (uri_toString (uri f))"
    and g: "\<forall>f \<in> set ds. \<forall>g \<in> set ds. uri_toString (uri f) = uri_toString (uri g) \<longrightarrow> G f = G g"
    and x: "locations_exact isLinux ((\<lambda>f. uri_toString (uri f)) ` set ds)"
  shows "locations_exact isLinux (G ` set ds)"
  unfolding locations_exact_def
proof (intro ballI impI)
  fix a b assume "a \<in> G ` set ds" "b \<in> G ` set ds" and ab: "same_location isLinux a b"
  then obtain f g where fg: "f \<in> set ds" "g \<in> set ds" "a = G f" "b = G g"
    by (auto simp: image_iff)
  with s have sa: "same_location isLinux a (uri_toString (uri f))"
    and sb: "same_location isLinux b (uri_toString (uri g))"
    by simp_all
  from same_location_trans [OF same_location_trans [OF same_location_sym [OF sa] ab] sb]
  have "same_location isLinux (uri_toString (uri f)) (uri_toString (uri g))" .
  with x fg(1,2) have "uri_toString (uri f) = uri_toString (uri g)"
    unfolding locations_exact_def by blast
  with g fg(1,2) have "G f = G g" by blast
  with fg(3,4) show "a = b" by simp
qed

lemma toExt_None [simp]: "toExtHostWorkspace isLinux h None conf unconf = (h, None, [], [])"
  by (simp add: toExtHostWorkspace_def)

lemma actualWorkspace_update [simp]:
  "actualWorkspace (s\<lparr> heap := h \<rparr>) = actualWorkspace s"
  "actualWorkspace (s\<lparr> proxy := p \<rparr>) = actualWorkspace s"
  by (simp_all add: actualWorkspace_def split: option.splits)

lemmas eval_defs =
  new_ExtHostWorkspace_def toExtHostWorkspace_def received_def empty_store_def
  alloc_def js_sort_def delta_def new_ExtHostWorkspaceImpl_def tst_set_def path_segments_def
  uri_toString_def uri_file_def on_objects_def compareWorkspaceFolderByUri_def isFolderEqual_def
  isEqual_def compare_def acceptWorkspaceData_def findFolder_def merge_folder_def Let_def
  folder_a_def folder_b_def data_a_def data_ab_def

lemma single_root_eq:
  "single_root =
     \<lparr> heap = \<lparr> cells = (cells empty_store)(0 := folder_a), nxt = 1 \<rparr>, proxy = Some [],
       confirmedWorkspace = Some \<lparr> ws_id = ''id'', ws_name = ''ws'', workspaceFolders = [0],
          ws_structure = [([''file:'', ''ws'', ''a''], 0)] \<rparr>,
       unconfirmedWorkspace = None, fired = [] \<rparr>"
  by (simp add: single_root_def eval_defs)

lemma multi_root_eq:
  "multi_root =
     \<lparr> heap = \<lparr> cells = (cells empty_store)(0 := folder_a, 1 := folder_b), nxt = 2 \<rparr>, proxy = Some [],
       confirmedWorkspace = Some \<lparr> ws_id = ''id'', ws_name = ''ws'', workspaceFolders = [0, 1],
          ws_structure = [([''file:'', ''ws'', ''a''], 0), ([''file:'', ''ws'', ''b''], 1)] \<rparr>,
       unconfirmedWorkspace = None, fired = [] \<rparr>"
  by (simp add: multi_root_def eval_defs)

lemma no_workspace_eq:
  "no_workspace =
     \<lparr> heap = empty_store, proxy = Some [], confirmedWorkspace = None,
       unconfirmedWorkspace = None, fired = [] \<rparr>"
  by (simp add: no_workspace_def new_ExtHostWorkspace_def)

lemma char_of_98: "char_of (98 :: nat) = CHR ''b''"
  by code_simp

lemma store_ok_single_root: "store_ok single_root"
  by (simp add: single_root_eq store_ok_def allocated_def)

lemma toExt_delta:
  assumes "toExtHostWorkspace isLinux h (Some d) conf unconf = (h', w, a, r)"
  shows "\<exists>ws. w = Some ws
           \<and> (r, a) = delta (folders_of conf) (workspaceFolders ws)
                         (on_objects h' (compareWorkspaceFolderByUri isLinux))"
proof -
  obtain h1 out where
    e: "(case conf of
           Some oldWorkspace \<Rightarrow>
             forEach_folderData isLinux
               (case unconf of Some u \<Rightarrow> u | None \<Rightarrow> oldWorkspace)
               (wd_folders d) 0 (h, [])
         | None \<Rightarrow> alloc_all h (map (read_folderData h) (wd_folders d))) = (h1, out)"
    by (cases "(case conf of
           Some oldWorkspace \<Rightarrow>
             forEach_folderData isLinux
               (case unconf of Some u \<Rightarrow> u | None \<Rightarrow> oldWorkspace)
               (wd_folders d) 0 (h, [])
         | None \<Rightarrow> alloc_all h (map (read_folderData h) (wd_folders d)))")
  define ws where "ws = new_ExtHostWorkspaceImpl h1 (wd_id d) (wd_name d)
                (js_sort (\<lambda>f1 f2. if index (cells h1 f1) < index (cells h1 f2) then - 1 else 1) out)"
  define dl where "dl = delta (case conf of Some x \<Rightarrow> workspaceFolders x | None \<Rightarrow> [])
                (workspaceFolders ws) (on_objects h1 (compareWorkspaceFolderByUri isLinux))"
  from toExt_Some [OF e ws_def dl_def] assms
  have "h' = h1" "w = Some ws" "a = snd dl" "r = fst dl"
    by simp_all
  then show ?thesis
    unfolding dl_def folders_of_def by (simp split: option.splits)
qed

lemma tst_put_subset: "set (tst_put t k v) \<subseteq> insert (k, v) (set t)"
  by (induction t) (auto split: if_splits)

lemma tst_put_keys:
  "map fst (tst_put t k v) = (if k \<in> set (map fst t) then map fst t else map fst t @ [k])"
  by (induction t) force+

lemma tst_put_set:
  "set (tst_put t k v) \<subseteq> insert (k, v) (set t) \<and> fst ` set (tst_put t k v) = insert k (fst ` set t)"
proof -
  have "set (map fst (tst_put t k v)) = insert k (set (map fst t))"
    unfolding tst_put_keys by auto
  then have "fst ` set (tst_put t k v) = insert k (fst ` set t)"
    by simp
  with tst_put_subset [of t k v] show ?thesis by blast
qed

lemma structure_entries:
  "(\<forall>e \<in> set (foldl (\<lambda>t r. tst_set t (uri_toString (uri (cells h r))) r) [] fs).
        snd e \<in> set fs \<and> folder_key h (snd e) = fst e)
   \<and> fst ` set (foldl (\<lambda>t r. tst_set t (uri_toString (uri (cells h r))) r) [] fs)
       = folder_key h ` set fs"
proof (induction fs rule: rev_induct)
  case Nil
  then show ?case by simp
next
  case (snoc x xs)
  let ?t = "foldl (\<lambda>t r. tst_set t (uri_toString (uri (cells h r))) r) [] xs"
  have k: "path_segments (uri_toString (uri (cells h x))) = folder_key h x"
    by (simp add: folder_key_def location_def)
  from tst_put_set [of ?t "folder_key h x" x]
  have a: "set (tst_put ?t (folder_key h x) x) \<subseteq> insert (folder_key h x, x) (set ?t)"
    and b: "fst ` set (tst_put ?t (folder_key h x) x) = insert (folder_key h x) (fst ` set ?t)"
    by simp_all
  have 1: "\<forall>e \<in> set (tst_put ?t (folder_key h x) x). snd e \<in> set (xs @ [x]) \<and> folder_key h (snd e) = fst e"
    using a snoc.IH by auto
  have 2: "fst ` set (tst_put ?t (folder_key h x) x) = folder_key h ` set (xs @ [x])"
    using b snoc.IH by auto
  from 1 2 show ?case by (simp add: tst_set_def k)
qed

lemma longest_key_None: "longest_key es = None \<longleftrightarrow> es = []"
  by (cases es) (auto split: option.splits if_splits)

lemma longest_key_Some:
  "longest_key es = Some e \<Longrightarrow> e \<in> set es \<and> (\<forall>e' \<in> set es. length (fst e') \<le> length (fst e))"
proof (induction es arbitrary: e)
  case Nil
  then show ?case by simp
next
  case (Cons x xs)
  show ?case
  proof (cases "longest_key xs")
    case None
    then have "xs = []" by (simp add: longest_key_None)
    with Cons.prems show ?thesis by simp
  next
    case (Some b)
    from Cons.IH [OF Some] Cons.prems Some show ?thesis
      by (auto split: if_splits)
  qed
qed

lemma map_of_structure:
  assumes "\<forall>e \<in> set t. P e"
  shows "map_of t k = Some v \<Longrightarrow> P (k, v)"
  using assms by (auto dest: map_of_SomeD)

lemma tst_get_structure:
  assumes ws: "ws = new_ExtHostWorkspaceImpl h i n fs"
  shows "(tst_get (ws_structure ws) key \<noteq> None) = list_ex (\<lambda>r. folder_key h r = path_segments key) fs"
proof -
  let ?t = "foldl (\<lambda>t r. tst_set t (uri_toString (uri (cells h r))) r) [] fs"
  have "(map_of ?t (path_segments key) \<noteq> None) = (path_segments key \<in> fst ` set ?t)"
    by (simp add: map_of_eq_None_iff)
  also have "\<dots> = (path_segments key \<in> folder_key h ` set fs)"
    using structure_entries [of h fs] by simp
  also have "\<dots> = list_ex (\<lambda>r. folder_key h r = path_segments key) fs"
    by (force simp: list_ex_iff image_iff)
  finally show ?thesis
    by (simp add: ws new_ExtHostWorkspaceImpl_def tst_get_def)
qed

lemma tst_findSubstr_structure:
  assumes ws: "ws = new_ExtHostWorkspaceImpl h i n fs"
  shows "longest_prefix_folder h fs (path_segments key) (tst_findSubstr (ws_structure ws) key)"
proof -
  let ?t = "foldl (\<lambda>t r. tst_set t (uri_toString (uri (cells h r))) r) [] fs"
  let ?q = "path_segments key"
  let ?c = "filter (\<lambda>e. prefix (fst e) ?q) ?t"
  have t: "ws_structure ws = ?t" by (simp add: ws new_ExtHostWorkspaceImpl_def)
  have en: "\<forall>e \<in> set ?t. snd e \<in> set fs \<and> folder_key h (snd e) = fst e"
    and ks: "fst ` set ?t = folder_key h ` set fs"
    using structure_entries [of h fs] by simp_all
  show ?thesis
  proof (cases "longest_key ?c")
    case None
    then have "?c = []" by (simp add: longest_key_None)
    then have n: "\<forall>e \<in> set ?t. \<not> prefix (fst e) ?q"
      by (simp add: filter_empty_conv)
    have "\<forall>r \<in> set fs. \<not> prefix (folder_key h r) ?q"
    proof
      fix r assume "r \<in> set fs"
      then have "folder_key h r \<in> fst ` set ?t" using ks by simp
      then obtain e where "e \<in> set ?t" "fst e = folder_key h r" by (auto simp: image_iff)
      with n show "\<not> prefix (folder_key h r) ?q" by auto
    qed
    with None show ?thesis
      by (simp add: longest_prefix_folder_def tst_findSubstr_def t)
  next
    case (Some e)
    from longest_key_Some [OF Some]
    have e: "e \<in> set ?t" "prefix (fst e) ?q"
      and m: "\<forall>e' \<in> set ?c. length (fst e') \<le> length (fst e)"
      by simp_all
    from en e(1) have r: "snd e \<in> set fs" "folder_key h (snd e) = fst e" by simp_all
    have "\<forall>r' \<in> set fs. prefix (folder_key h r') ?q
            \<longrightarrow> length (folder_key h r') \<le> length (folder_key h (snd e))"
    proof (intro ballI impI)
      fix r' assume "r' \<in> set fs" and p: "prefix (folder_key h r') ?q"
      then have "folder_key h r' \<in> fst ` set ?t" using ks by simp
      then obtain e' where e': "e' \<in> set ?t" "fst e' = folder_key h r'" by (auto simp: image_iff)
      with p have "e' \<in> set ?c" by simp
      with m have "length (fst e') \<le> length (fst e)" by blast
      with e'(2) r(2)
      show "length (folder_key h r') \<le> length (folder_key h (snd e))" by simp
    qed
    with r e(2) Some show ?thesis
      by (simp add: longest_prefix_folder_def tst_findSubstr_def t)
  qed
qed

lemmas eval3 = getWorkspaceFolder_impl_def tst_get_def tst_findSubstr_def path_segments_def
  uri_toString_def uri_file_def dirname_def

lemma getRelativePath_none:
  "getWorkspaceFolder s (uri_file p) True = None \<Longrightarrow> getRelativePath s (PathString p) inc = Some p"
  "getWorkspaceFolder s u True = None \<Longrightarrow> getRelativePath s (PathUri u) inc = Some (fsPath u)"
  by (simp_all add: getRelativePath_def)

lemma include_eq:
  "(case inc of
      None \<Rightarrow> (case actualWorkspace s of Some actual \<Rightarrow> length (workspaceFolders actual) > 1 | None \<Rightarrow> False)
    | Some b \<Rightarrow> b) = includes_name s inc"
  by (simp add: includes_name_def currentWorkspaceFolders_def split: option.splits)

lemma getRelativePath_some:
  "p \<noteq> [] \<Longrightarrow> getWorkspaceFolder s (uri_file p) True = Some f \<Longrightarrow>
     getRelativePath s (PathString p) inc = Some (normalize (relative_in s f p inc))"
  "fsPath u \<noteq> [] \<Longrightarrow> getWorkspaceFolder s u True = Some f \<Longrightarrow>
     getRelativePath s (PathUri u) inc = Some (normalize (relative_in s f (fsPath u) inc))"
  by (simp_all add: getRelativePath_def include_eq relative_in_def Let_def)

lemma normalize_id: "CHR 0x5C \<notin> set x \<Longrightarrow> normalize x = x"
  by (induction x) (auto simp: normalize_def)

lemmas eval4 = getRelativePath_def getWorkspaceFolder_def actualWorkspace_def eval3
  relative_def normalize_def fsPath_def folder_a_def folder_b_def

lemma rel_single: "getRelativePath single_root (PathString ''/ws/a/src/file.ts'') None = Some ''src/file.ts''"
  by (simp add: single_root_eq eval4)

lemma rel_multi: "getRelativePath multi_root (PathString ''/ws/a/src/file.ts'') None = Some ''a/src/file.ts''"
  by (simp add: multi_root_eq eval4)

lemma forEach_found:
  assumes "forEach_folderData isLinux ws (map Received ds) i (h, []) = (h', out)"
    and "allocated h (workspaceFolders ws)"
    and "j < length ds"
    and "findFolder isLinux h ws (uri (ds ! j)) = Some e"
  shows "out ! j = e"
  using assms
proof (induction ds arbitrary: i h h' out j)
  case Nil
  then show ?case by simp
next
  case (Cons d ds)
  obtain r h1 where m: "merge_folder isLinux ws (Received d) i h = (r, h1)"
    by (cases "merge_folder isLinux ws (Received d) i h")
  obtain h2 out' where f: "forEach_folderData isLinux ws (map Received ds) (Suc i) (h1, []) = (h2, out')"
    by (cases "forEach_folderData isLinux ws (map Received ds) (Suc i) (h1, [])")
  from forEach_Cons [OF m f] Cons.prems(1) have e: "h' = h2" "out = r # out'"
    by simp_all
  from merge_folder_Received [OF m Cons.prems(2)] have x: "extends h h1" by simp
  have a1: "allocated h1 (workspaceFolders ws)"
    using x Cons.prems(2) by (rule extends_allocated)
  show ?case
  proof (cases j)
    case 0
    with Cons.prems(4) have "findFolder isLinux h ws (uri d) = Some e" by simp
    from merge_folder_found(1) [OF m this] e 0 show ?thesis by simp
  next
    case (Suc j')
    with Cons.prems(3) have j': "j' < length ds" by simp
    have "findFolder isLinux h1 ws (uri (ds ! j')) = Some e"
      using Cons.prems(4) Suc findFolder_extends [OF x Cons.prems(2)] by simp
    from Cons.IH [OF f a1 j' this] e Suc show ?thesis by simp
  qed
qed

lemma merge_folder_untouched:
  assumes "merge_folder isLinux ws (Received d) i h = (r, h1)"
    and "x < nxt h"
    and "findFolder isLinux h ws (uri d) \<noteq> Some x"
  shows "cells h1 x = cells h x"
proof (cases "findFolder isLinux h ws (uri d)")
  case None
  from merge_folder_fresh(3) [OF assms(1) None] assms(2) show ?thesis by simp
next
  case (Some e)
  with assms(3) have "e \<noteq> x" by simp
  with merge_folder_found(3) [OF assms(1) Some] show ?thesis by simp
qed

lemma forEach_untouched:
  assumes "forEach_folderData isLinux ws (map Received ds) i (h, []) = (h', out)"
    and "allocated h (workspaceFolders ws)"
    and "x < nxt h"
    and "\<forall>d \<in> set ds. findFolder isLinux h ws (uri d) \<noteq> Some x"
  shows "cells h' x = cells h x"
  using assms
proof (induction ds arbitrary: i h h' out)
  case Nil
  then show ?case by simp
next
  case (Cons d ds)
  obtain r h1 where m: "merge_folder isLinux ws (Received d) i h = (r, h1)"
    by (cases "merge_folder isLinux ws (Received d) i h")
  obtain h2 out' where f: "forEach_folderData isLinux ws (map Received ds) (Suc i) (h1, []) = (h2, out')"
    by (cases "forEach_folderData isLinux ws (map Received ds) (Suc i) (h1, [])")
  from forEach_Cons [OF m f] Cons.prems(1) have e: "h' = h2" "out = r # out'"
    by simp_all
  from merge_folder_Received [OF m Cons.prems(2)] have x: "extends h h1" by simp
  have a1: "allocated h1 (workspaceFolders ws)"
    using x Cons.prems(2) by (rule extends_allocated)
  have x1: "x < nxt h1" using x Cons.prems(3) by (simp add: extends_def)
  have n1: "\<forall>d \<in> set ds. findFolder isLinux h1 ws (uri d) \<noteq> Some x"
    using Cons.prems(4) findFolder_extends [OF x Cons.prems(2)] by simp
  have "cells h1 x = cells h x"
    using merge_folder_untouched [OF m Cons.prems(3)] Cons.prems(4) by simp
  with Cons.IH [OF f a1 x1 n1] e show ?case by simp
qed

lemma forEach_updated:
  assumes "forEach_folderData isLinux ws (map Received ds) i (h, []) = (h', out)"
    and "allocated h (workspaceFolders ws)"
    and "j < length ds"
    and "findFolder isLinux h ws (uri (ds ! j)) = Some e"
    and "\<forall>k. j < k \<and> k < length ds \<longrightarrow> findFolder isLinux h ws (uri (ds ! k)) \<noteq> Some e"
  shows "cells h' e = (cells h e)\<lparr> name := name (ds ! j), index := index (ds ! j) \<rparr>"
  using assms
proof (induction ds arbitrary: i h h' out j)
  case Nil
  then show ?case by simp
next
  case (Cons d ds)
  obtain r h1 where m: "merge_folder isLinux ws (Received d) i h = (r, h1)"
    by (cases "merge_folder isLinux ws (Received d) i h")
  obtain h2 out' where f: "forEach_folderData isLinux ws (map Received ds) (Suc i) (h1, []) = (h2, out')"
    by (cases "forEach_folderData isLinux ws (map Received ds) (Suc i) (h1, [])")
  from forEach_Cons [OF m f] Cons.prems(1) have eq: "h' = h2" "out = r # out'"
    by simp_all
  from merge_folder_Received [OF m Cons.prems(2)] have x: "extends h h1" by simp
  have a1: "allocated h1 (workspaceFolders ws)"
    using x Cons.prems(2) by (rule extends_allocated)
  from findFolder_Some [OF Cons.prems(4)] Cons.prems(2) have el: "e < nxt h"
    by (simp add: allocated_def)
  then have el1: "e < nxt h1" using x by (simp add: extends_def)
  note fe = findFolder_extends [OF x Cons.prems(2)]
  show ?case
  proof (cases j)
    case 0
    with Cons.prems(4) have fd: "findFolder isLinux h ws (uri d) = Some e" by simp
    have "\<forall>d' \<in> set ds. findFolder isLinux h1 ws (uri d') \<noteq> Some e"
    proof
      fix d' assume "d' \<in> set ds"
      then obtain k where "k < length ds" "ds ! k = d'" by (auto simp: in_set_conv_nth)
      with Cons.prems(5) [rule_format, of "Suc k"] 0
      show "findFolder isLinux h1 ws (uri d') \<noteq> Some e" by (simp add: fe)
    qed
    from forEach_untouched [OF f a1 el1 this] merge_folder_found(3) [OF m fd] eq 0
    show ?thesis by simp
  next
    case (Suc j')
    with Cons.prems(3) have j': "j' < length ds" by simp
    have f1: "findFolder isLinux h1 ws (uri (ds ! j')) = Some e"
      using Cons.prems(4) Suc fe by simp
    have o1: "\<forall>k. j' < k \<and> k < length ds \<longrightarrow> findFolder isLinux h1 ws (uri (ds ! k)) \<noteq> Some e"
    proof (intro allI impI)
      fix k assume "j' < k \<and> k < length ds"
      with Cons.prems(5) [rule_format, of "Suc k"] Suc
      show "findFolder isLinux h1 ws (uri (ds ! k)) \<noteq> Some e" by (simp add: fe)
    qed
    have c1: "cells h1 e = cells h e
        \<or> cells h1 e = (cells h e)\<lparr> name := name d, index := index d \<rparr>"
    proof (cases "findFolder isLinux h ws (uri d) = Some e")
      case True
      from merge_folder_found(3) [OF m True] show ?thesis by simp
    next
      case False
      from merge_folder_untouched [OF m el False] show ?thesis by simp
    qed
    from Cons.IH [OF f a1 j' f1 o1]
    have "cells h2 e = (cells h1 e)\<lparr> name := name (ds ! j'), index := index (ds ! j') \<rparr>" .
    with c1 eq Suc show ?thesis by auto
  qed
qed

lemma findFolder_same:
  assumes "isFolderEqual isLinux u u'"
  shows "findFolder isLinux h ws u = findFolder isLinux h ws u'"
proof -
  from assms have s: "same_location isLinux (uri_toString u) (uri_toString u')"
    by (simp add: isFolderEqual_same_location)
  have "isFolderEqual isLinux x u = isFolderEqual isLinux x u'" for x
  proof
    assume "isFolderEqual isLinux x u"
    then have "same_location isLinux (uri_toString x) (uri_toString u)"
      by (simp add: isFolderEqual_same_location)
    from same_location_trans [OF this s] show "isFolderEqual isLinux x u'"
      by (simp add: isFolderEqual_same_location)
  next
    assume "isFolderEqual isLinux x u'"
    then have "same_location isLinux (uri_toString x) (uri_toString u')"
      by (simp add: isFolderEqual_same_location)
    from same_location_trans [OF this same_location_sym [OF s]] show "isFolderEqual isLinux x u"
      by (simp add: isFolderEqual_same_location)
  qed
  then show ?thesis by (simp add: findFolder_def)
qed

lemma findFolder_same_result:
  assumes "findFolder isLinux h ws u = Some e" and "findFolder isLinux h ws u' = Some e"
  shows "isFolderEqual isLinux u' u"
proof -
  from findFolder_Some [OF assms(1)] have a: "same_location isLinux (location h e) (uri_toString u)"
    by simp
  from findFolder_Some [OF assms(2)] have b: "same_location isLinux (location h e) (uri_toString u')"
    by simp
  from same_location_trans [OF same_location_sym [OF b] a] show ?thesis
    by (simp add: isFolderEqual_same_location)
qed

lemma last_filter_upt:
  assumes "j < n" and "P j"
  shows "j \<le> last (filter P [j ..< n]) \<and> last (filter P [j ..< n]) < n
       \<and> P (last (filter P [j ..< n]))
       \<and> (\<forall>m. last (filter P [j ..< n]) < m \<and> m < n \<longrightarrow> \<not> P m)"
proof -
  define xs where "xs = filter P [j ..< n]"
  have mem: "m \<in> set xs \<longleftrightarrow> j \<le> m \<and> m < n \<and> P m" for m
    by (auto simp: xs_def)
  have s: "sorted xs" by (simp add: xs_def sorted_wrt_filter)
  from assms mem have "j \<in> set xs" by simp
  then have ne: "xs \<noteq> []" by (cases xs) simp_all
  then have "last xs \<in> set xs" by (rule last_in_set)
  with mem have 1: "j \<le> last xs" "last xs < n" "P (last xs)" by simp_all
  have "\<not> P m" if "last xs < m" "m < n" for m
  proof
    assume "P m"
    with that 1 mem have "m \<in> set xs" by simp
    then obtain i where i: "i < length xs" "xs ! i = m" unfolding in_set_conv_nth by blast
    from i(1) have "i \<le> length xs - 1" "length xs - 1 < length xs" by simp_all
    from sorted_nth_mono [OF s this] have "xs ! i \<le> xs ! (length xs - 1)" .
    with i ne have "m \<le> last xs" by (simp add: last_conv_nth)
    with that show False by simp
  qed
  with 1 show ?thesis unfolding xs_def by blast
qed

lemma last_with_location_props:
  assumes "j < length ds"
  shows "j \<le> last_with_location isLinux ds j \<and> last_with_location isLinux ds j < length ds
       \<and> isFolderEqual isLinux (uri (ds ! last_with_location isLinux ds j)) (uri (ds ! j))
       \<and> (\<forall>m. last_with_location isLinux ds j < m \<and> m < length ds
              \<longrightarrow> \<not> isFolderEqual isLinux (uri (ds ! m)) (uri (ds ! j)))"
proof -
  have "isFolderEqual isLinux (uri (ds ! j)) (uri (ds ! j))"
    by (simp add: isFolderEqual_same_location)
  from last_filter_upt [of j "length ds" "\<lambda>k. isFolderEqual isLinux (uri (ds ! k)) (uri (ds ! j))",
      OF assms this]
  show ?thesis unfolding last_with_location_def .
qed

lemma last_with_location_self:
  assumes "j < length ds"
    and "\<forall>m. j < m \<and> m < length ds \<longrightarrow> \<not> isFolderEqual isLinux (uri (ds ! m)) (uri (ds ! j))"
  shows "last_with_location isLinux ds j = j"
proof -
  let ?k = "last_with_location isLinux ds j"
  from last_with_location_props [OF assms(1), of isLinux]
  have "j \<le> ?k" "?k < length ds" "isFolderEqual isLinux (uri (ds ! ?k)) (uri (ds ! j))"
    by simp_all
  with assms(2) [rule_format, of ?k] show ?thesis by (cases "j = ?k") simp_all
qed

lemma toExt_merge:
  assumes t: "toExtHostWorkspace isLinux h (Some (received d)) (Some c) unconf = (h', w, a, r)"
  shows "\<exists>out ws. forEach_folderData isLinux (lookup_workspace c unconf) (map Received (wd_folders d)) 0 (h, [])
                     = (h', out)
           \<and> w = Some ws \<and> set (workspaceFolders ws) = set out"
proof -
  let ?lk = "lookup_workspace c unconf"
  obtain h1 out where f: "forEach_folderData isLinux ?lk (map Received (wd_folders d)) 0 (h, []) = (h1, out)"
    by (cases "forEach_folderData isLinux ?lk (map Received (wd_folders d)) 0 (h, [])")
  have w: "wd_folders (received d) = map Received (wd_folders d)"
    by (simp add: received_def)
  have e: "(case Some c of
           Some oldWorkspace \<Rightarrow>
             forEach_folderData isLinux
               (case unconf of Some u \<Rightarrow> u | None \<Rightarrow> oldWorkspace)
               (wd_folders (received d)) 0 (h, [])
         | None \<Rightarrow> alloc_all h (map (read_folderData h) (wd_folders (received d)))) = (h1, out)"
    using f by (simp add: w lookup_workspace_def)
  define ws where "ws = new_ExtHostWorkspaceImpl h1 (wd_id (received d)) (wd_name (received d))
                (js_sort (\<lambda>f1 f2. if index (cells h1 f1) < index (cells h1 f2) then - 1 else 1) out)"
  define dl where "dl = delta (case Some c of Some x \<Rightarrow> workspaceFolders x | None \<Rightarrow> [])
                (workspaceFolders ws) (on_objects h1 (compareWorkspaceFolderByUri isLinux))"
  from toExt_Some [OF e ws_def dl_def] t have "h' = h1" "w = Some ws" by simp_all
  moreover have "set (workspaceFolders ws) = set out" by (simp add: ws_def)
  ultimately show ?thesis using f by blast
qed

lemma fix_index_unchanged:
  assumes "\<forall>k < length fs. fs ! k < m \<longrightarrow> index (cells h (fs ! k)) = int (i + k)"
    and "r < m"
  shows "cells (fix_index h fs i) r = cells h r"
  using assms
proof (induction fs arbitrary: h i)
  case Nil
  then show ?case by simp
next
  case (Cons f fs)
  let ?h1 = "h\<lparr> cells := (cells h)(f := (cells h f)\<lparr> index := int i \<rparr>) \<rparr>"
  have c: "cells ?h1 x = cells h x" if "x < m" for x
  proof (cases "x = f")
    case True
    with that Cons.prems(1) [rule_format, of 0] have "index (cells h f) = int i" by simp
    with True show ?thesis by simp
  next
    case False
    then show ?thesis by simp
  qed
  have "\<forall>k < length fs. fs ! k < m \<longrightarrow> index (cells ?h1 (fs ! k)) = int (Suc i + k)"
  proof (intro allI impI)
    fix k assume k: "k < length fs" "fs ! k < m"
    with Cons.prems(1) [rule_format, of "Suc k"] have "index (cells h (fs ! k)) = int (Suc i + k)"
      by simp
    with c [OF k(2)] show "index (cells ?h1 (fs ! k)) = int (Suc i + k)" by simp
  qed
  from Cons.IH [OF this Cons.prems(2)] c [OF Cons.prems(2)] show ?case by simp
qed

lemma edit_same_objects:
  assumes e: "edit_folders h cur i n v = (h2, new)"
    and len: "length new = length cur"
    and b: "i + n \<le> length cur"
    and o: "ordinals_match h cur"
    and al: "allocated h cur"
  shows "same_objects h h2"
proof -
  let ?fs = "map (\<lambda>f. \<lparr> uri = fst f, name = js_or_name (Some (snd f)) (basenameOrAuthority (fst f)),
                         index = 0 \<rparr>) v"
  obtain h1 ins where a: "alloc_all h ?fs = (h1, ins)" by (cases "alloc_all h ?fs")
  from alloc_all_props [OF a]
  have ins: "ins = [nxt h ..< nxt h + length v]" and same1: "\<forall>r < nxt h. cells h1 r = cells h r"
    by simp_all
  from e a have new: "new = take i cur @ ins @ drop (i + n) cur" and h2: "h2 = fix_index h1 new 0"
    by (auto simp: edit_folders_def Let_def)
  from new len b ins have lv: "length v = n" by simp
  have "\<forall>k < length new. new ! k < nxt h \<longrightarrow> index (cells h1 (new ! k)) = int (0 + k)"
  proof (intro allI impI)
    fix k assume k: "k < length new" "new ! k < nxt h"
    have lt: "length (take i cur) = i" using b by simp
    have li: "length ins = n" using ins lv by simp
    have "new ! k = cur ! k"
    proof (cases "k < i")
      case True
      with lt new show ?thesis by (simp add: nth_append)
    next
      case False
      then have nk: "new ! k = (ins @ drop (i + n) cur) ! (k - i)"
        using lt new by (simp add: nth_append)
      show ?thesis
      proof (cases "k < i + n")
        case True
        with False have ki: "k - i < n" by arith
        with nk li have "new ! k = ins ! (k - i)" by (simp add: nth_append)
        also have "\<dots> = nxt h + (k - i)" using ins lv ki by simp
        finally show ?thesis using k(2) by simp
      next
        case False
        then have ki: "\<not> k - i < n" by arith
        with nk li have "new ! k = drop (i + n) cur ! (k - i - n)" by (simp add: nth_append)
        also have "\<dots> = cur ! (i + n + (k - i - n))" using b by simp
        also have "i + n + (k - i - n) = k" using False by arith
        finally show ?thesis .
      qed
    qed
    moreover from k(1) len o have "index (cells h (cur ! k)) = int k"
      by (simp add: ordinals_match_def)
    ultimately show "index (cells h1 (new ! k)) = int (0 + k)"
      using same1 k(2) by simp
  qed
  from fix_index_unchanged [OF this] same1 h2 show ?thesis
    by (simp add: same_objects_def)
qed

lemma upd_not_numbers:
  "idx = OtherType \<or> del = OtherType \<or> (\<exists>i. idx = Num i \<and> less_zero i) \<or> (\<exists>n. del = Num n \<and> less_zero n)
   \<Longrightarrow> updateWorkspaceFolders isLinux s ext idx del toAdd = (Inr False, s)"
  by (cases idx; cases del) (auto simp: updateWorkspaceFolders_def Let_def)

lemma upd_nothing:
  "validate_folders isLinux toAdd [] = []
   \<Longrightarrow> updateWorkspaceFolders isLinux s ext idx (Num (Finite 0)) toAdd = (Inr False, s)"
  by (cases idx) (auto simp: updateWorkspaceFolders_def Let_def)

lemma upd_too_many:
  "greater_than (js_plus i n) (length (currentWorkspaceFolders s))
   \<Longrightarrow> updateWorkspaceFolders isLinux s ext (Num i) (Num n) toAdd = (Inr False, s)"
  by (simp add: updateWorkspaceFolders_def Let_def)

lemma upd_no_change:
  assumes e: "edited isLinux s i n toAdd = (h, new)"
    and d: "edit_delta isLinux s i n toAdd = ([], [])"
  shows "updateWorkspaceFolders isLinux s ext (Num i) (Num n) toAdd = (Inr False, s)
       \<or> updateWorkspaceFolders isLinux s ext (Num i) (Num n) toAdd = (Inr False, s\<lparr> heap := h \<rparr>)"
  using e d by (simp add: updateWorkspaceFolders_def edited_def edit_delta_def Let_def)

lemma same_objects_refl [simp]: "same_objects h h"
  by (simp add: same_objects_def)

lemma same_but_ordinals_refl [simp]: "same_but_ordinals h fs h"
  by (simp add: same_but_ordinals_def)

lemma fix_index_cells:
  "uri (cells (fix_index h fs i) r) = uri (cells h r)
   \<and> name (cells (fix_index h fs i) r) = name (cells h r)
   \<and> (r \<notin> set fs \<longrightarrow> cells (fix_index h fs i) r = cells h r)"
proof (induction fs arbitrary: h i)
  case Nil
  then show ?case by simp
next
  case (Cons f fs)
  let ?h1 = "h\<lparr> cells := (cells h)(f := (cells h f)\<lparr> index := int i \<rparr>) \<rparr>"
  from Cons.IH [of ?h1 "Suc i"] show ?case by simp
qed

lemma edit_same_but_ordinals:
  assumes e: "edit_folders h cur i n v = (h2, new)"
  shows "same_but_ordinals h cur h2"
proof -
  let ?fs = "map (\<lambda>f. \<lparr> uri = fst f, name = js_or_name (Some (snd f)) (basenameOrAuthority (fst f)),
                         index = 0 \<rparr>) v"
  obtain h1 ins where a: "alloc_all h ?fs = (h1, ins)" by (cases "alloc_all h ?fs")
  from alloc_all_props [OF a]
  have ins: "ins = [nxt h ..< nxt h + length v]" and same1: "\<forall>r < nxt h. cells h1 r = cells h r"
    by simp_all
  from e a have new: "new = take i cur @ ins @ drop (i + n) cur" and h2: "h2 = fix_index h1 new 0"
    by (auto simp: edit_folders_def Let_def)
  have "r \<notin> set new" if "r < nxt h" "r \<notin> set cur" for r
    using that new ins by (auto dest: in_set_takeD in_set_dropD)
  with fix_index_cells [of h1 new 0] same1 h2 show ?thesis
    by (simp add: same_but_ordinals_def)
qed

lemma upd_no_change_state:
  assumes d: "edit_delta isLinux s i n toAdd = ([], [])"
  shows "fst (updateWorkspaceFolders isLinux s ext (Num i) (Num n) toAdd) = Inr False
       \<and> confirmedWorkspace (snd (updateWorkspaceFolders isLinux s ext (Num i) (Num n) toAdd))
           = confirmedWorkspace s
       \<and> unconfirmedWorkspace (snd (updateWorkspaceFolders isLinux s ext (Num i) (Num n) toAdd))
           = unconfirmedWorkspace s
       \<and> proxy (snd (updateWorkspaceFolders isLinux s ext (Num i) (Num n) toAdd)) = proxy s
       \<and> fired (snd (updateWorkspaceFolders isLinux s ext (Num i) (Num n) toAdd)) = fired s
       \<and> same_but_ordinals (heap s) (currentWorkspaceFolders s)
            (heap (snd (updateWorkspaceFolders isLinux s ext (Num i) (Num n) toAdd)))
       \<and> (ordinals_match (heap s) (currentWorkspaceFolders s)
            \<and> allocated (heap s) (currentWorkspaceFolders s)
          \<longrightarrow> same_objects (heap s)
                (heap (snd (updateWorkspaceFolders isLinux s ext (Num i) (Num n) toAdd))))"
proof -
  let ?r = "updateWorkspaceFolders isLinux s ext (Num i) (Num n) toAdd"
  let ?cur = "currentWorkspaceFolders s"
  let ?st = "actualStart i (length ?cur)"
  let ?dc = "actualDeleteCount n (length ?cur) ?st"
  obtain h new where e: "edited isLinux s i n toAdd = (h, new)"
    by (cases "edited isLinux s i n toAdd")
  then have e': "edit_folders (heap s) ?cur ?st ?dc (validate_folders isLinux toAdd []) = (h, new)"
    by (simp add: edited_def)
  from d e have d': "delta ?cur new
      (on_objects h (compareWorkspaceFolderByUriAndNameAndIndex isLinux)) = ([], [])"
    by (simp add: edit_delta_def)
  from upd_no_change [OF e d] have r: "?r = (Inr False, s) \<or> ?r = (Inr False, s\<lparr> heap := h \<rparr>)" .
  have st: "?st \<le> length ?cur"
    by (cases i) auto
  have "?dc \<le> length ?cur - ?st"
    by (cases n) auto
  with st have b: "?st + ?dc \<le> length ?cur" by arith
  have 1: "same_but_ordinals (heap s) ?cur (heap (snd ?r))"
    using r edit_same_but_ordinals [OF e'] by auto
  have 2: "same_objects (heap s) (heap (snd ?r))"
    if o: "ordinals_match (heap s) ?cur" and al: "allocated (heap s) ?cur"
  proof -
    from delta_empty_lengths [OF d'] have "length new = length ?cur" by simp
    from edit_same_objects [OF e' this b o al] r show ?thesis by auto
  qed
  from r 1 2 show ?thesis by auto
qed

lemmas eval5 = edited_def edit_delta_def toward_zero_def edit_folders_def currentWorkspaceFolders_def actualWorkspace_def alloc_def
  js_or_name_def basenameOrAuthority_def path_segments_def uri_file_def uri_toString_def
  delta_def js_sort_def on_objects_def compareWorkspaceFolderByUriAndNameAndIndex_def
  isFolderEqual_def isEqual_def compare_def folder_a_def Let_def

lemmas eval6 = updateWorkspaceFolders_def trySetWorkspaceData_def eval5 eval_defs

lemma edit_multi_root:
  "updateWorkspaceFolders True multi_root ''ext'' (Num (Finite 0)) (Num (Finite 0)) add_a
   = (Inr True,
      \<lparr> heap = \<lparr> cells = (cells empty_store)(0 := folder_a, 1 := folder_b\<lparr> index := 2 \<rparr>,
                    2 := \<lparr> uri = uri_file ''/ws/a'', name = ''a'', index = 0 \<rparr>), nxt = 3 \<rparr>,
        proxy = Some [UpdateWorkspaceFolders ''ext'' (Finite 0) (Finite 0) [(uri_file ''/ws/a'', ''a'')]],
        confirmedWorkspace = Some \<lparr> ws_id = ''id'', ws_name = ''ws'', workspaceFolders = [0, 1],
           ws_structure = [([''file:'', ''ws'', ''a''], 0), ([''file:'', ''ws'', ''b''], 1)] \<rparr>,
        unconfirmedWorkspace = Some \<lparr> ws_id = ''id'', ws_name = ''ws'', workspaceFolders = [0, 0, 1],
           ws_structure = [([''file:'', ''ws'', ''a''], 0), ([''file:'', ''ws'', ''b''], 1)] \<rparr>,
        fired = [] \<rparr>)"
  apply (simp add: multi_root_eq add_a_def eval6)
  apply (auto simp: fun_eq_iff folder_a_def folder_b_def uri_file_def)
  done

lemma multi_root_edited_eq:
  "multi_root_edited =
     \<lparr> heap = \<lparr> cells = (cells empty_store)(0 := folder_a, 1 := folder_b\<lparr> index := 2 \<rparr>,
                   2 := \<lparr> uri = uri_file ''/ws/a'', name = ''a'', index = 0 \<rparr>), nxt = 3 \<rparr>,
       proxy = Some [UpdateWorkspaceFolders ''ext'' (Finite 0) (Finite 0) [(uri_file ''/ws/a'', ''a'')]],
       confirmedWorkspace = Some \<lparr> ws_id = ''id'', ws_name = ''ws'', workspaceFolders = [0, 1],
          ws_structure = [([''file:'', ''ws'', ''a''], 0), ([''file:'', ''ws'', ''b''], 1)] \<rparr>,
       unconfirmedWorkspace = Some \<lparr> ws_id = ''id'', ws_name = ''ws'', workspaceFolders = [0, 0, 1],
          ws_structure = [([''file:'', ''ws'', ''a''], 0), ([''file:'', ''ws'', ''b''], 1)] \<rparr>,
       fired = [] \<rparr>"
  by (simp add: multi_root_edited_def edit_multi_root)

lemma edit_delta_multi_root_edited:
  "edit_delta True multi_root_edited (Finite 2) (Finite 1) add_b = ([], [])"
  by (simp add: multi_root_edited_eq add_b_def eval6 folder_b_def)

subsection \<open>The folders of every state are objects of its store\<close>

text \<open>
  \<open>store_ok\<close> holds of the state the constructor makes, and \<^verbatim>\<open>$acceptWorkspaceData\<close> and
  \<^verbatim>\<open>updateWorkspaceFolders\<close> keep it.
\<close>

lemma merge_folder_extends:
  assumes "merge_folder isLinux ws fd i h = (r, h1)"
    and "allocated h (workspaceFolders ws)"
  shows "extends h h1 \<and> r < nxt h1"
proof (cases "findFolder isLinux h ws (uri (read_folderData h fd))")
  case None
  with assms(1) show ?thesis
    by (auto simp: merge_folder_def Let_def alloc_def extends_def)
next
  case (Some e)
  from findFolder_Some [OF Some] assms(2) have "e < nxt h"
    by (simp add: allocated_def)
  with assms(1) Some show ?thesis
    by (auto simp: merge_folder_def Let_def extends_def)
qed

lemma forEach_extends:
  assumes "forEach_folderData isLinux ws fds i (h, []) = (h', out)"
    and "allocated h (workspaceFolders ws)"
  shows "extends h h' \<and> allocated h' out"
  using assms
proof (induction fds arbitrary: i h h' out)
  case Nil
  then show ?case by (simp add: allocated_def)
next
  case (Cons fd fds)
  obtain r h1 where m: "merge_folder isLinux ws fd i h = (r, h1)"
    by (cases "merge_folder isLinux ws fd i h")
  obtain h2 out' where f: "forEach_folderData isLinux ws fds (Suc i) (h1, []) = (h2, out')"
    by (cases "forEach_folderData isLinux ws fds (Suc i) (h1, [])")
  from forEach_Cons [OF m f] Cons.prems(1) have e: "h' = h2" "out = r # out'"
    by simp_all
  from merge_folder_extends [OF m Cons.prems(2)] have x: "extends h h1" and r: "r < nxt h1"
    by simp_all
  have a1: "allocated h1 (workspaceFolders ws)"
    using x Cons.prems(2) by (rule extends_allocated)
  from Cons.IH [OF f a1] have x2: "extends h1 h2" and a2: "allocated h2 out'" by simp_all
  have "r < nxt h2" using r x2 by (simp add: extends_def)
  with a2 e have "allocated h' out" by (simp add: allocated_def)
  moreover have "extends h h'" using x x2 e by (auto intro: extends_trans)
  ultimately show ?case by simp
qed

lemma toExt_allocated:
  assumes t: "toExtHostWorkspace isLinux h (Some d) conf unconf = (h', w, a, r)"
    and c: "case conf of None \<Rightarrow> True | Some x \<Rightarrow> allocated h (workspaceFolders x)"
    and u: "case unconf of None \<Rightarrow> True | Some x \<Rightarrow> allocated h (workspaceFolders x)"
  shows "\<exists>ws. w = Some ws \<and> extends h h' \<and> allocated h' (workspaceFolders ws)"
proof -
  have "\<exists>h1 out. (case conf of
                   Some oldWorkspace \<Rightarrow>
                     forEach_folderData isLinux
                       (case unconf of Some u \<Rightarrow> u | None \<Rightarrow> oldWorkspace)
                       (wd_folders d) 0 (h, [])
                 | None \<Rightarrow> alloc_all h (map (read_folderData h) (wd_folders d))) = (h1, out)
        \<and> extends h h1 \<and> allocated h1 out"
  proof (cases conf)
    case None
    obtain h1 out where al: "alloc_all h (map (read_folderData h) (wd_folders d)) = (h1, out)"
      by (cases "alloc_all h (map (read_folderData h) (wd_folders d))")
    with alloc_all_extends [OF al] None show ?thesis by simp
  next
    case (Some oldWs)
    let ?lk = "case unconf of Some u \<Rightarrow> u | None \<Rightarrow> oldWs"
    obtain h1 out where f: "forEach_folderData isLinux ?lk (wd_folders d) 0 (h, []) = (h1, out)"
      by (cases "forEach_folderData isLinux ?lk (wd_folders d) 0 (h, [])")
    have "allocated h (workspaceFolders ?lk)"
      using c u Some by (simp split: option.splits)
    from forEach_extends [OF f this] f Some show ?thesis by simp
  qed
  then obtain h1 out where
    e: "(case conf of
           Some oldWorkspace \<Rightarrow>
             forEach_folderData isLinux
               (case unconf of Some u \<Rightarrow> u | None \<Rightarrow> oldWorkspace)
               (wd_folders d) 0 (h, [])
         | None \<Rightarrow> alloc_all h (map (read_folderData h) (wd_folders d))) = (h1, out)"
    and x: "extends h h1" and al: "allocated h1 out"
    by blast
  define ws where "ws = new_ExtHostWorkspaceImpl h1 (wd_id d) (wd_name d)
                (js_sort (\<lambda>f1 f2. if index (cells h1 f1) < index (cells h1 f2) then - 1 else 1) out)"
  define dl where "dl = delta (case conf of Some x \<Rightarrow> workspaceFolders x | None \<Rightarrow> [])
                (workspaceFolders ws) (on_objects h1 (compareWorkspaceFolderByUri isLinux))"
  from toExt_Some [OF e ws_def dl_def] t have r: "h' = h1" "w = Some ws" by simp_all
  have "allocated h1 (workspaceFolders ws)" using al by (simp add: allocated_def ws_def)
  with r x show ?thesis by simp
qed

lemma store_ok_new: "store_ok (new_ExtHostWorkspace isLinux p data)"
proof (cases data)
  case None
  then show ?thesis by (simp add: new_ExtHostWorkspace_def store_ok_def)
next
  case (Some d)
  obtain h w a r where t: "toExtHostWorkspace isLinux empty_store (Some (received d)) None None = (h, w, a, r)"
    by (cases "toExtHostWorkspace isLinux empty_store (Some (received d)) None None") auto
  from toExt_allocated [OF t] obtain ws where "w = Some ws" "allocated h (workspaceFolders ws)"
    by auto
  with t Some show ?thesis by (simp add: new_ExtHostWorkspace_def store_ok_def)
qed

lemma store_ok_accept:
  assumes "store_ok s"
  shows "store_ok (acceptWorkspaceData isLinux s data)"
proof (cases data)
  case None
  then show ?thesis by (simp add: acceptWorkspaceData_def store_ok_def)
next
  case (Some d)
  obtain h w a r where
    t: "toExtHostWorkspace isLinux (heap s) (Some (received d)) (confirmedWorkspace s)
          (unconfirmedWorkspace s) = (h, w, a, r)"
    by (cases "toExtHostWorkspace isLinux (heap s) (Some (received d)) (confirmedWorkspace s)
          (unconfirmedWorkspace s)") auto
  from assms have c: "case confirmedWorkspace s of None \<Rightarrow> True
                      | Some x \<Rightarrow> allocated (heap s) (workspaceFolders x)"
    and u: "case unconfirmedWorkspace s of None \<Rightarrow> True
            | Some x \<Rightarrow> allocated (heap s) (workspaceFolders x)"
    by (simp_all add: store_ok_def)
  from toExt_allocated [OF t c u] obtain ws where "w = Some ws" "allocated h (workspaceFolders ws)"
    by auto
  with t Some show ?thesis by (simp add: acceptWorkspaceData_def store_ok_def)
qed

lemma fix_index_extends: "extends h (fix_index h fs i)"
proof (induction fs arbitrary: h i)
  case Nil
  then show ?case by simp
next
  case (Cons f fs)
  let ?h1 = "h\<lparr> cells := (cells h)(f := (cells h f)\<lparr> index := int i \<rparr>) \<rparr>"
  have "extends h ?h1" by (simp add: extends_def)
  from extends_trans [OF this Cons.IH [of ?h1 "Suc i"]] show ?case by simp
qed

lemma edit_folders_extends:
  assumes "edit_folders h cur i n v = (h2, new)" and "allocated h cur"
  shows "extends h h2 \<and> allocated h2 new"
proof -
  let ?fs = "map (\<lambda>f. \<lparr> uri = fst f, name = js_or_name (Some (snd f)) (basenameOrAuthority (fst f)),
                         index = 0 \<rparr>) v"
  obtain h1 ins where a: "alloc_all h ?fs = (h1, ins)" by (cases "alloc_all h ?fs")
  from assms(1) a have new: "new = take i cur @ ins @ drop (i + n) cur" and h2: "h2 = fix_index h1 new 0"
    by (auto simp: edit_folders_def Let_def)
  from alloc_all_extends [OF a] have x1: "extends h h1" and ai: "allocated h1 ins" by simp_all
  from extends_allocated [OF x1 assms(2)] have "allocated h1 cur" .
  with ai new have an: "allocated h1 new"
    by (auto simp: allocated_def dest: in_set_takeD in_set_dropD)
  have x2: "extends h1 h2" unfolding h2 by (rule fix_index_extends)
  from extends_trans [OF x1 x2] extends_allocated [OF x2 an] show ?thesis by simp
qed

lemma store_ok_extends:
  "store_ok s \<Longrightarrow> extends (heap s) h \<Longrightarrow> store_ok (s\<lparr> heap := h \<rparr>)"
  by (auto simp: store_ok_def split: option.splits intro: extends_allocated)

lemma store_ok_proxy [simp]: "store_ok (s\<lparr> proxy := p \<rparr>) = store_ok s"
  by (simp add: store_ok_def split: option.splits)

lemma store_ok_actual:
  "store_ok s \<Longrightarrow> actualWorkspace s = Some w \<Longrightarrow> allocated (heap s) (workspaceFolders w)"
  by (auto simp: store_ok_def actualWorkspace_def split: option.splits)

lemma store_ok_trySet:
  assumes "store_ok s" and "trySetWorkspaceData isLinux s data = (b, s')"
  shows "store_ok s'"
proof (cases "actualWorkspace s")
  case None
  with assms show ?thesis by (simp add: trySetWorkspaceData_def)
next
  case (Some actual)
  obtain h w a r where
    t: "toExtHostWorkspace isLinux (heap s) (Some data) (Some actual) None = (h, w, a, r)"
    by (cases "toExtHostWorkspace isLinux (heap s) (Some data) (Some actual) None") auto
  have c: "case Some actual of None \<Rightarrow> True | Some x \<Rightarrow> allocated (heap s) (workspaceFolders x)"
    using store_ok_actual [OF assms(1) Some] by simp
  have u: "case None :: ExtHostWorkspaceImpl option of None \<Rightarrow> True
            | Some x \<Rightarrow> allocated (heap s) (workspaceFolders x)"
    by simp
  from toExt_allocated [OF t c u] obtain ws where
    w: "w = Some ws" and x: "extends (heap s) h" and al: "allocated h (workspaceFolders ws)"
    by auto
  from assms(2) Some t w have s': "s' = s\<lparr> heap := h, unconfirmedWorkspace := Some ws \<rparr>"
    by (simp add: trySetWorkspaceData_def)
  from store_ok_extends [OF assms(1) x] al show ?thesis
    unfolding s' by (simp add: store_ok_def split: option.splits)
qed

lemma store_ok_update:
  assumes "store_ok s"
  shows "store_ok (snd (updateWorkspaceFolders isLinux s ext idx del toAdd))"
proof -
  let ?cur = "currentWorkspaceFolders s"
  have ac: "allocated (heap s) ?cur"
    using assms store_ok_actual [of s]
    by (cases "actualWorkspace s") (simp_all add: currentWorkspaceFolders_def allocated_def)
  show ?thesis
  proof (cases idx)
    case OtherType
    with assms show ?thesis by (simp add: updateWorkspaceFolders_def)
  next
    case idx: (Num i)
    show ?thesis
    proof (cases del)
      case OtherType
      with assms idx show ?thesis by (simp add: updateWorkspaceFolders_def)
    next
      case del: (Num n)
      let ?v = "validate_folders isLinux toAdd []"
      let ?st = "actualStart i (length ?cur)"
      let ?dc = "actualDeleteCount n (length ?cur) ?st"
      obtain h new where e: "edit_folders (heap s) ?cur ?st ?dc ?v = (h, new)"
        by (cases "edit_folders (heap s) ?cur ?st ?dc ?v")
      from edit_folders_extends [OF e ac] have x: "extends (heap s) h" by simp
      note ok1 = store_ok_extends [OF assms x]
      obtain rem ad where d: "delta ?cur new
          (on_objects h (compareWorkspaceFolderByUriAndNameAndIndex isLinux)) = (rem, ad)"
        by (cases "delta ?cur new (on_objects h (compareWorkspaceFolderByUriAndNameAndIndex isLinux))")
      let ?s' = "s\<lparr> heap := h, proxy := map_option
                   (\<lambda>calls. calls @ [UpdateWorkspaceFolders ext i n ?v]) (proxy s) \<rparr>"
      have ok2: "store_ok ?s'" using ok1 by (simp add: store_ok_def split: option.splits)
      have "store_ok (snd (case trySetWorkspaceData isLinux ?s' dd of
                             (accepted, s'') \<Rightarrow> (Inr accepted :: js_exception + bool, s'')))" for dd
        using store_ok_trySet [OF ok2, of isLinux dd]
        by (cases "trySetWorkspaceData isLinux ?s' dd") simp
      with assms idx del e d ok1 ok2 show ?thesis
        by (simp add: updateWorkspaceFolders_def Let_def split: option.splits)
    qed
  qed
qed

section \<open>The claims about the workspace folders\<close>





text \<open>
  C10. With no workspace at all, \<^verbatim>\<open>updateWorkspaceFolders\<close> called with index 0, delete count
  0 and at least one valid folder to add sends \<^verbatim>\<open>$updateWorkspaceFolders\<close> to the proxy, when
  there is one. It does not return false after that: reading \<^verbatim>\<open>this._actualWorkspace.id\<close>
  in line 199 throws a \<^verbatim>\<open>TypeError\<close> before \<^verbatim>\<open>trySetWorkspaceData\<close> is called.
\<close>

theorem updateWorkspaceFolders_without_workspace_throws:
  assumes "actualWorkspace s = None" and "validate_folders isLinux toAdd [] \<noteq> []"
  shows "fst (updateWorkspaceFolders isLinux s ext (Num (Finite 0)) (Num (Finite 0)) toAdd) = Inl TypeError
     \<and> proxy (snd (updateWorkspaceFolders isLinux s ext (Num (Finite 0)) (Num (Finite 0)) toAdd))
         = map_option (\<lambda>calls. calls @ [UpdateWorkspaceFolders ext (Finite 0) (Finite 0)
                                          (validate_folders isLinux toAdd [])])
             (proxy s)"
proof -
  let ?v = "validate_folders isLinux toAdd []"
  have cur: "currentWorkspaceFolders s = []"
    using assms(1) by (simp add: currentWorkspaceFolders_def)
  obtain h new where e: "edit_folders (heap s) [] 0 0 ?v = (h, new)"
    by (cases "edit_folders (heap s) [] 0 0 ?v")
  then have "new \<noteq> []"
    using assms(2) by (auto simp: edit_folders_def Let_def split: prod.splits dest: length_alloc_all)
  then have d: "delta [] new (on_objects h (compareWorkspaceFolderByUriAndNameAndIndex isLinux))
      = ([], js_sort (on_objects h (compareWorkspaceFolderByUriAndNameAndIndex isLinux)) new)"
    and n: "js_sort (on_objects h (compareWorkspaceFolderByUriAndNameAndIndex isLinux)) new \<noteq> []"
    by simp_all
  have a: "\<And>p. actualWorkspace (s\<lparr> heap := h, proxy := p \<rparr>) = None"
    using assms(1) by simp
  show ?thesis
    using assms(2) cur e d n a
    by (simp add: updateWorkspaceFolders_def Let_def)
qed

theorem updateWorkspaceFolders_without_workspace_throws_witness:
  "actualWorkspace no_workspace = None
   \<and> validate_folders True [\<lparr> add_uri = Some (uri_file ''/x''), add_name = None \<rparr>] [] \<noteq> []
   \<and> fst (updateWorkspaceFolders True no_workspace ''ext'' (Num (Finite 0)) (Num (Finite 0))
            [\<lparr> add_uri = Some (uri_file ''/x''), add_name = None \<rparr>]) = Inl TypeError
   \<and> proxy (snd (updateWorkspaceFolders True no_workspace ''ext'' (Num (Finite 0)) (Num (Finite 0))
            [\<lparr> add_uri = Some (uri_file ''/x''), add_name = None \<rparr>]))
       = Some [UpdateWorkspaceFolders ''ext'' (Finite 0) (Finite 0) [(uri_file ''/x'', ''x'')]]"
proof -
  have a: "actualWorkspace no_workspace = None"
    by (simp add: no_workspace_eq actualWorkspace_def)
  have v: "validate_folders True [\<lparr> add_uri = Some (uri_file ''/x''), add_name = None \<rparr>] []
      = [(uri_file ''/x'', ''x'')]"
    by (simp add: js_or_name_def basenameOrAuthority_def path_segments_def uri_file_def)
  have p: "proxy no_workspace = Some []"
    by (simp add: no_workspace_eq)
  from a v p updateWorkspaceFolders_without_workspace_throws
    [of no_workspace True "[\<lparr> add_uri = Some (uri_file ''/x''), add_name = None \<rparr>]" "''ext''"]
  show ?thesis by simp
qed

text \<open>
  C1, as the code has it. With null data the event of \<^verbatim>\<open>$acceptWorkspaceData\<close> has empty lists
  \<^verbatim>\<open>added\<close> and \<^verbatim>\<open>removed\<close>, also when folders go away with the workspace. With data, the
  lists are the delta of the previous and the new confirmed folders under
  \<^verbatim>\<open>compareWorkspaceFolderByUri\<close>, which looks at the location only. When no two of these
  folders have locations that differ in case only, or on Linux: counted by location, \<^verbatim>\<open>added\<close>
  holds what the new confirmed folders have beyond the previous ones, and \<^verbatim>\<open>removed\<close> what the
  previous ones have beyond the new; a location that as many previous as new folders have is
  the location of no added and of no removed folder, whatever became of names and ordinals.
\<close>

theorem acceptWorkspaceData_delta_by_location:
  assumes s': "s' = acceptWorkspaceData isLinux s data"
  shows "(data = None \<longrightarrow>
            added (last (fired s')) = [] \<and> removed (last (fired s')) = []
            \<and> confirmedWorkspace s' = None)
       \<and> (data \<noteq> None \<longrightarrow>
            (removed (last (fired s')), added (last (fired s')))
              = delta (folders_of (confirmedWorkspace s)) (folders_of (confirmedWorkspace s'))
                  (on_objects (heap s') (compareWorkspaceFolderByUri isLinux)))
       \<and> (data \<noteq> None
            \<and> locations_exact isLinux
                 (location (heap s') ` (set (folders_of (confirmedWorkspace s))
                                           \<union> set (folders_of (confirmedWorkspace s')))) \<longrightarrow>
            image_mset (location (heap s')) (mset (added (last (fired s'))))
              = image_mset (location (heap s')) (mset (folders_of (confirmedWorkspace s')))
                - image_mset (location (heap s')) (mset (folders_of (confirmedWorkspace s)))
            \<and> image_mset (location (heap s')) (mset (removed (last (fired s'))))
              = image_mset (location (heap s')) (mset (folders_of (confirmedWorkspace s)))
                - image_mset (location (heap s')) (mset (folders_of (confirmedWorkspace s')))
            \<and> (\<forall>l. count (image_mset (location (heap s')) (mset (folders_of (confirmedWorkspace s')))) l
                    = count (image_mset (location (heap s')) (mset (folders_of (confirmedWorkspace s)))) l
                   \<longrightarrow> l \<notin> location (heap s') ` set (added (last (fired s')))
                       \<and> l \<notin> location (heap s') ` set (removed (last (fired s')))))"
proof -
  have n: "added (last (fired s')) = [] \<and> removed (last (fired s')) = [] \<and> confirmedWorkspace s' = None"
    if "data = None"
    using that s' by (simp add: acceptWorkspaceData_def toExtHostWorkspace_def)
  have g: "(removed (last (fired s')), added (last (fired s')))
              = delta (folders_of (confirmedWorkspace s)) (folders_of (confirmedWorkspace s'))
                  (on_objects (heap s') (compareWorkspaceFolderByUri isLinux))"
    if "data = Some d" for d
  proof -
    obtain h1 w1 a1 r1 where
      t: "toExtHostWorkspace isLinux (heap s) (Some (received d)) (confirmedWorkspace s)
            (unconfirmedWorkspace s) = (h1, w1, a1, r1)"
      by (cases "toExtHostWorkspace isLinux (heap s) (Some (received d)) (confirmedWorkspace s)
            (unconfirmedWorkspace s)") auto
    from toExt_delta [OF t] obtain ws where
      w: "w1 = Some ws"
      and dl: "(r1, a1) = delta (folders_of (confirmedWorkspace s)) (workspaceFolders ws)
                           (on_objects h1 (compareWorkspaceFolderByUri isLinux))"
      by blast
    have p: "heap s' = h1" "confirmedWorkspace s' = Some ws" "added (last (fired s')) = a1"
      "removed (last (fired s')) = r1"
      using t w s' that by (simp_all add: acceptWorkspaceData_def)
    then have "folders_of (confirmedWorkspace s') = workspaceFolders ws"
      by (simp add: folders_of_def)
    with p dl show ?thesis by simp
  qed
  let ?loc = "location (heap s')"
  let ?old = "image_mset ?loc (mset (folders_of (confirmedWorkspace s)))"
  let ?new = "image_mset ?loc (mset (folders_of (confirmedWorkspace s')))"
  let ?a = "added (last (fired s'))" and ?r = "removed (last (fired s'))"
  have m: "image_mset ?loc (mset ?a) = ?new - ?old \<and> image_mset ?loc (mset ?r) = ?old - ?new
        \<and> (\<forall>l. count ?new l = count ?old l \<longrightarrow> l \<notin> ?loc ` set ?a \<and> l \<notin> ?loc ` set ?r)"
    if d: "data = Some d"
      and ex: "locations_exact isLinux
                 (?loc ` (set (folders_of (confirmedWorkspace s)) \<union> set (folders_of (confirmedWorkspace s'))))"
    for d
  proof -
    from delta_by_uri_msets [OF ex] g [OF d, symmetric]
    have m: "image_mset ?loc (mset ?r) = ?old - ?new" "image_mset ?loc (mset ?a) = ?new - ?old"
      by simp_all
    have "l \<notin> ?loc ` set ?a \<and> l \<notin> ?loc ` set ?r" if "count ?new l = count ?old l" for l
    proof -
      have "l \<notin># ?new - ?old" "l \<notin># ?old - ?new"
        using that by (simp_all add: in_diff_count)
      then have "l \<notin># image_mset ?loc (mset ?a)" "l \<notin># image_mset ?loc (mset ?r)"
        using m by simp_all
      then show ?thesis by simp
    qed
    with m show ?thesis by blast
  qed
  show ?thesis
  proof (cases data)
    case None
    with n show ?thesis by simp
  next
    case (Some d)
    with g [OF Some] m [OF Some] show ?thesis by simp
  qed
qed

theorem acceptWorkspaceData_delta_by_location_witness:
  "added (last (fired (acceptWorkspaceData True single_root None))) = []
   \<and> removed (last (fired (acceptWorkspaceData True single_root None))) = []
   \<and> confirmedWorkspace (acceptWorkspaceData True single_root None) = None
   \<and> Some data_ab \<noteq> None
   \<and> locations_exact True
     (location (heap (acceptWorkspaceData True single_root (Some data_ab)))
        ` (set (folders_of (confirmedWorkspace single_root))
           \<union> set (folders_of (confirmedWorkspace (acceptWorkspaceData True single_root (Some data_ab))))))
   \<and> (removed (last (fired (acceptWorkspaceData True single_root (Some data_ab)))),
       added (last (fired (acceptWorkspaceData True single_root (Some data_ab)))))
      = delta (folders_of (confirmedWorkspace single_root))
          (folders_of (confirmedWorkspace (acceptWorkspaceData True single_root (Some data_ab))))
          (on_objects (heap (acceptWorkspaceData True single_root (Some data_ab)))
             (compareWorkspaceFolderByUri True))
   \<and> image_mset (location (heap (acceptWorkspaceData True single_root (Some data_ab))))
        (mset (removed (last (fired (acceptWorkspaceData True single_root (Some data_ab))))))
       = image_mset (location (heap (acceptWorkspaceData True single_root (Some data_ab))))
           (mset (folders_of (confirmedWorkspace single_root)))
         - image_mset (location (heap (acceptWorkspaceData True single_root (Some data_ab))))
             (mset (folders_of (confirmedWorkspace (acceptWorkspaceData True single_root (Some data_ab)))))"
  using acceptWorkspaceData_delta_by_location
    [of "acceptWorkspaceData True single_root (Some data_ab)" True single_root "Some data_ab"]
    acceptWorkspaceData_delta_by_location
    [of "acceptWorkspaceData True single_root None" True single_root None]
  by simp

text \<open>
  C1, as the claim states it, fails: the folder of \<^verbatim>\<open>single_root\<close> is renamed by the incoming
  data and keeps its location, and the event carries two empty lists.
\<close>

theorem rename_is_not_reported:
  "name (cells (heap single_root) 0) = ''a''
   \<and> name (cells (heap (acceptWorkspaceData True single_root (Some data_renamed))) 0) = ''renamed''
   \<and> uri (cells (heap (acceptWorkspaceData True single_root (Some data_renamed))) 0)
       = uri (cells (heap single_root) 0)
   \<and> folders_of (confirmedWorkspace single_root) = [0]
   \<and> folders_of (confirmedWorkspace (acceptWorkspaceData True single_root (Some data_renamed))) = [0]
   \<and> fired (acceptWorkspaceData True single_root (Some data_renamed)) = [\<lparr> added = [], removed = [] \<rparr>]"
  by (simp add: single_root_eq data_renamed_def folders_of_def eval_defs)

text \<open>
  C2. The claim says that every folder of the merged list has the ordinal of the incoming data.
  Line 74 gives a folder that was not found the position of its descriptor in the incoming
  list instead: with a previous workspace, the incoming folders \<^verbatim>\<open>/ws/c\<close> with ordinal 1 and
  \<^verbatim>\<open>/ws/b\<close> with ordinal 0, in this order, become \<^verbatim>\<open>/ws/c\<close> with ordinal 0 followed by
  \<^verbatim>\<open>/ws/b\<close> with ordinal 1.
\<close>

theorem new_folder_gets_arrival_position:
  "map (cells (heap (acceptWorkspaceData True single_root (Some data_cb))))
     (folders_of (confirmedWorkspace (acceptWorkspaceData True single_root (Some data_cb))))
   = [\<lparr> uri = uri_file ''/ws/c'', name = ''c'', index = 0 \<rparr>,
      \<lparr> uri = uri_file ''/ws/b'', name = ''b'', index = 1 \<rparr>]"
  by (simp add: single_root_eq data_cb_def folders_of_def eval_defs)

text \<open>
  C6. For a workspace made by the constructor from the folders \<^verbatim>\<open>fs\<close>,
  \<^verbatim>\<open>getWorkspaceFolder\<close> looks up the location it is given, or, when \<^verbatim>\<open>resolveParent\<close> is set
  and a folder has exactly this location, the location with the parent path. The result is a
  folder whose location is a prefix, by path segments, of the location looked up, and no
  folder with such a location has a longer one; the result is none exactly when no folder's
  location is a prefix. Over the folders \<^verbatim>\<open>/ws/a\<close> and \<^verbatim>\<open>/ws/b\<close>, the folder of
  \<^verbatim>\<open>/ws/a/src/file.ts\<close> is \<^verbatim>\<open>/ws/a\<close>, and \<^verbatim>\<open>/ws/c/file.ts\<close> has none.
\<close>

theorem getWorkspaceFolder_longest_prefix:
  "(ws = new_ExtHostWorkspaceImpl h i n fs \<longrightarrow>
      getWorkspaceFolder_impl ws u resolveParent
        = tst_findSubstr (ws_structure ws) (uri_toString (lookup_uri h fs u resolveParent))
      \<and> longest_prefix_folder h fs
          (path_segments (uri_toString (lookup_uri h fs u resolveParent)))
          (getWorkspaceFolder_impl ws u resolveParent))
   \<and> getWorkspaceFolder multi_root (uri_file ''/ws/a/src/file.ts'') False = Some 0
   \<and> location (heap multi_root) 0 = ''file:///ws/a''
   \<and> getWorkspaceFolder multi_root (uri_file ''/ws/c/file.ts'') False = None"
proof -
  have 1: "getWorkspaceFolder_impl ws u resolveParent
        = tst_findSubstr (ws_structure ws) (uri_toString (lookup_uri h fs u resolveParent))"
    if "ws = new_ExtHostWorkspaceImpl h i n fs"
    using tst_get_structure [OF that, of "uri_toString u"]
    by (simp add: getWorkspaceFolder_impl_def lookup_uri_def Let_def)
  have 2: "longest_prefix_folder h fs
          (path_segments (uri_toString (lookup_uri h fs u resolveParent)))
          (getWorkspaceFolder_impl ws u resolveParent)"
    if "ws = new_ExtHostWorkspaceImpl h i n fs"
    using tst_findSubstr_structure [OF that] 1 [OF that] by simp
  have 3: "getWorkspaceFolder multi_root (uri_file ''/ws/a/src/file.ts'') False = Some 0"
    by (simp add: multi_root_eq getWorkspaceFolder_def actualWorkspace_def eval3)
  have 4: "location (heap multi_root) 0 = ''file:///ws/a''"
    by (simp add: multi_root_eq location_def folder_a_def uri_toString_def uri_file_def)
  have 5: "getWorkspaceFolder multi_root (uri_file ''/ws/c/file.ts'') False = None"
    by (simp add: multi_root_eq getWorkspaceFolder_def actualWorkspace_def eval3)
  from 1 2 3 4 5 show ?thesis by blast
qed

theorem getWorkspaceFolder_longest_prefix_witness:
  "the (confirmedWorkspace multi_root) = new_ExtHostWorkspaceImpl (heap multi_root) ''id'' ''ws'' [0, 1]
   \<and> lookup_uri (heap multi_root) [0, 1] (uri_file ''/ws/a'') True = uri_file ''/ws''
   \<and> getWorkspaceFolder_impl (the (confirmedWorkspace multi_root)) (uri_file ''/ws/a'') True
       = tst_findSubstr (ws_structure (the (confirmedWorkspace multi_root))) (uri_toString (uri_file ''/ws''))
   \<and> longest_prefix_folder (heap multi_root) [0, 1] (path_segments (uri_toString (uri_file ''/ws'')))
        (getWorkspaceFolder_impl (the (confirmedWorkspace multi_root)) (uri_file ''/ws/a'') True)"
proof -
  have w: "the (confirmedWorkspace multi_root) = new_ExtHostWorkspaceImpl (heap multi_root) ''id'' ''ws'' [0, 1]"
    by (simp add: multi_root_eq new_ExtHostWorkspaceImpl_def tst_set_def path_segments_def
        uri_toString_def uri_file_def folder_a_def folder_b_def)
  have l: "lookup_uri (heap multi_root) [0, 1] (uri_file ''/ws/a'') True = uri_file ''/ws''"
    by (simp add: multi_root_eq lookup_uri_def folder_key_def location_def path_segments_def
        uri_toString_def uri_file_def folder_a_def folder_b_def dirname_def)
  from w getWorkspaceFolder_longest_prefix
    [of "the (confirmedWorkspace multi_root)" "heap multi_root" "''id''" "''ws''" "[0, 1]"
       "uri_file ''/ws/a''" True]
  have "getWorkspaceFolder_impl (the (confirmedWorkspace multi_root)) (uri_file ''/ws/a'') True
       = tst_findSubstr (ws_structure (the (confirmedWorkspace multi_root)))
           (uri_toString (lookup_uri (heap multi_root) [0, 1] (uri_file ''/ws/a'') True))
     \<and> longest_prefix_folder (heap multi_root) [0, 1]
          (path_segments (uri_toString (lookup_uri (heap multi_root) [0, 1] (uri_file ''/ws/a'') True)))
          (getWorkspaceFolder_impl (the (confirmedWorkspace multi_root)) (uri_file ''/ws/a'') True)"
    by blast
  then have a: "getWorkspaceFolder_impl (the (confirmedWorkspace multi_root)) (uri_file ''/ws/a'') True
       = tst_findSubstr (ws_structure (the (confirmedWorkspace multi_root)))
           (uri_toString (uri_file ''/ws''))"
    and b: "longest_prefix_folder (heap multi_root) [0, 1]
          (path_segments (uri_toString (uri_file ''/ws'')))
          (getWorkspaceFolder_impl (the (confirmedWorkspace multi_root)) (uri_file ''/ws/a'') True)"
    unfolding l by blast+
  from w l a b show ?thesis by blast
qed

text \<open>
  C7. \<^verbatim>\<open>getRelativePath\<close> returns the path it was given when no folder contains it. Otherwise
  the result is the path relative to the location of the folder, with the name of the folder
  and a slash in front exactly when \<^verbatim>\<open>includeWorkspace\<close> is true, or, when it is not given,
  exactly when the workspace has more than one folder; this string goes through
  \<^verbatim>\<open>normalize\<close>, which leaves a string without backslash as it is. With the single folder
  \<^verbatim>\<open>/ws/a\<close> the path \<^verbatim>\<open>/ws/a/src/file.ts\<close> gives \<^verbatim>\<open>src/file.ts\<close>, with the folders
  \<^verbatim>\<open>/ws/a\<close> and \<^verbatim>\<open>/ws/b\<close> it gives \<^verbatim>\<open>a/src/file.ts\<close>.
\<close>

theorem getRelativePath_relative:
  "(getWorkspaceFolder s (uri_file p) True = None \<longrightarrow> getRelativePath s (PathString p) inc = Some p)
   \<and> (getWorkspaceFolder s u True = None \<longrightarrow> getRelativePath s (PathUri u) inc = Some (fsPath u))
   \<and> (p \<noteq> [] \<and> getWorkspaceFolder s (uri_file p) True = Some f \<longrightarrow>
        getRelativePath s (PathString p) inc = Some (normalize (relative_in s f p inc)))
   \<and> (fsPath u \<noteq> [] \<and> getWorkspaceFolder s u True = Some f \<longrightarrow>
        getRelativePath s (PathUri u) inc = Some (normalize (relative_in s f (fsPath u) inc)))
   \<and> (CHR 0x5C \<notin> set (relative_in s f p inc) \<longrightarrow>
        normalize (relative_in s f p inc) = relative_in s f p inc)
   \<and> includes_name s None = (1 < length (currentWorkspaceFolders s))
   \<and> includes_name s (Some b) = b
   \<and> getRelativePath single_root (PathString ''/ws/a/src/file.ts'') None = Some ''src/file.ts''
   \<and> getRelativePath multi_root (PathString ''/ws/a/src/file.ts'') None = Some ''a/src/file.ts''"
  using getRelativePath_none getRelativePath_some
    normalize_id [of "relative_in s f p inc"] rel_single rel_multi
  by (simp add: includes_name_def)

theorem getRelativePath_relative_witness:
  "''/ws/a/src/file.ts'' \<noteq> []
   \<and> getWorkspaceFolder multi_root (uri_file ''/ws/a/src/file.ts'') True = Some 0
   \<and> getRelativePath multi_root (PathString ''/ws/a/src/file.ts'') (Some False)
       = Some (normalize (relative_in multi_root 0 ''/ws/a/src/file.ts'' (Some False)))
   \<and> relative_in multi_root 0 ''/ws/a/src/file.ts'' (Some False) = ''src/file.ts''
   \<and> getWorkspaceFolder multi_root (uri_file ''/ws/c/file.ts'') True = None
   \<and> getRelativePath multi_root (PathString ''/ws/c/file.ts'') None = Some ''/ws/c/file.ts''"
proof -
  have f: "getWorkspaceFolder multi_root (uri_file ''/ws/a/src/file.ts'') True = Some 0"
    by (simp add: multi_root_eq getWorkspaceFolder_def actualWorkspace_def eval3)
  have r: "relative_in multi_root 0 ''/ws/a/src/file.ts'' (Some False) = ''src/file.ts''"
    by (simp add: multi_root_eq relative_in_def includes_name_def relative_def path_segments_def
        fsPath_def folder_a_def uri_file_def)
  have n: "getWorkspaceFolder multi_root (uri_file ''/ws/c/file.ts'') True = None"
    by (simp add: multi_root_eq getWorkspaceFolder_def actualWorkspace_def eval3)
  from f r n
    getRelativePath_relative [of multi_root "''/ws/a/src/file.ts''" "Some False" _ 0]
    getRelativePath_relative [of multi_root "''/ws/c/file.ts''" None]
  show ?thesis by simp
qed







end
